theory Spec2Isabelle
  imports Main
begin

unbundle bit_operations_syntax

section \<open>Python values, exceptions and indexing\<close>

text \<open>
  The program is the class \<open>AES\<close> of \<open>aes_implementation.py\<close> together with the
  Flask route \<open>/encrypt\<close> that calls it. Python integers are unbounded, so every
  byte, index and key size is an \<open>int\<close>; a raised exception is the \<open>Inl\<close> branch of
  a sum, an ordinary return value the \<open>Inr\<close> branch.
\<close>

datatype error = ValueError | IndexError | ZeroDivisionError

text \<open>Sequencing of two computations that may raise.\<close>

definition bind :: "error + 'a \<Rightarrow> ('a \<Rightarrow> error + 'b) \<Rightarrow> error + 'b" where
  "bind m f = (case m of Inl e \<Rightarrow> Inl e | Inr x \<Rightarrow> f x)"

text \<open>
  The position an index \<open>i\<close> denotes in a sequence of \<open>n\<close> elements, if any:
  \<open>0 .. n - 1\<close> count from the front, \<open>-n .. -1\<close> from the end.
\<close>

definition py_index :: "nat \<Rightarrow> int \<Rightarrow> nat option" where
  "py_index n i =
     (if 0 \<le> i \<and> i < int n then Some (nat i)
      else if - int n \<le> i \<and> i < 0 then Some (nat (int n + i))
      else None)"

text \<open>\<open>xs[i]\<close> and \<open>xs[i] = v\<close> on a list; out of range both raise \<open>IndexError\<close>.\<close>

definition py_get :: "'a list \<Rightarrow> int \<Rightarrow> error + 'a" where
  "py_get xs i =
     (case py_index (length xs) i of None \<Rightarrow> Inl IndexError | Some k \<Rightarrow> Inr (xs ! k))"

definition py_set :: "'a list \<Rightarrow> int \<Rightarrow> 'a \<Rightarrow> error + 'a list" where
  "py_set xs i v =
     (case py_index (length xs) i of
        None \<Rightarrow> Inl IndexError
      | Some k \<Rightarrow> Inr (xs[k := v]))"

text \<open>\<open>data[i] = v\<close> on a bytearray: the value has to be in \<open>range(256)\<close>.\<close>

definition bytearray_set :: "int list \<Rightarrow> int \<Rightarrow> int \<Rightarrow> error + int list" where
  "bytearray_set data i v =
     (if 0 \<le> v \<and> v < 256 then py_set data i v else Inl ValueError)"

text \<open>
  \<open>a % b\<close> and \<open>a // b\<close> round towards minus infinity, as \<open>mod\<close> and \<open>div\<close>
  on \<open>int\<close> do, and raise for the divisor 0.
\<close>

definition py_mod :: "int \<Rightarrow> int \<Rightarrow> error + int" where
  "py_mod a b = (if b \<noteq> 0 then Inr (a mod b) else Inl ZeroDivisionError)"

definition py_div :: "int \<Rightarrow> int \<Rightarrow> error + int" where
  "py_div a b = (if b \<noteq> 0 then Inr (a div b) else Inl ZeroDivisionError)"

text \<open>\<open>range(a, b)\<close>; \<open>range(n)\<close> is \<open>py_range 0 n\<close>.\<close>

definition py_range :: "int \<Rightarrow> int \<Rightarrow> int list" where
  "py_range a b = [a..b - 1]"

text \<open>A \<open>for\<close> loop whose body updates the loop state and may raise.\<close>

fun for_each :: "'i list \<Rightarrow> ('i \<Rightarrow> 's \<Rightarrow> error + 's) \<Rightarrow> 's \<Rightarrow> error + 's" where
  "for_each [] body s = Inr s"
| "for_each (i # is) body s =
     (case body i s of Inl e \<Rightarrow> Inl e | Inr s' \<Rightarrow> for_each is body s')"

text \<open>
  A list comprehension, or a loop that only appends one element per iteration, whose
  element expression may raise.
\<close>

fun collect :: "('i \<Rightarrow> error + 'a) \<Rightarrow> 'i list \<Rightarrow> error + 'a list" where
  "collect f [] = Inr []"
| "collect f (i # is) =
     (case f i of Inl e \<Rightarrow> Inl e
      | Inr x \<Rightarrow> (case collect f is of Inl e \<Rightarrow> Inl e | Inr xs \<Rightarrow> Inr (x # xs)))"

section \<open>The constant tables\<close>

definition sbox :: "int list" where
  "sbox =
    [0x63, 0x7c, 0x77, 0x7b, 0xf2, 0x6b, 0x6f, 0xc5, 0x30, 0x01, 0x67, 0x2b, 0xfe, 0xd7, 0xab, 0x76,
     0xca, 0x82, 0xc9, 0x7d, 0xfa, 0x59, 0x47, 0xf0, 0xad, 0xd4, 0xa2, 0xaf, 0x9c, 0xa4, 0x72, 0xc0,
     0xb7, 0xfd, 0x93, 0x26, 0x36, 0x3f, 0xf7, 0xcc, 0x34, 0xa5, 0xe5, 0xf1, 0x71, 0xd8, 0x31, 0x15,
     0x04, 0xc7, 0x23, 0xc3, 0x18, 0x96, 0x05, 0x9a, 0x07, 0x12, 0x80, 0xe2, 0xeb, 0x27, 0xb2, 0x75,
     0x09, 0x83, 0x2c, 0x1a, 0x1b, 0x6e, 0x5a, 0xa0, 0x52, 0x3b, 0xd6, 0xb3, 0x29, 0xe3, 0x2f, 0x84,
     0x53, 0xd1, 0x00, 0xed, 0x20, 0xfc, 0xb1, 0x5b, 0x6a, 0xcb, 0xbe, 0x39, 0x4a, 0x4c, 0x58, 0xcf,
     0xd0, 0xef, 0xaa, 0xfb, 0x43, 0x4d, 0x33, 0x85, 0x45, 0xf9, 0x02, 0x7f, 0x50, 0x3c, 0x9f, 0xa8,
     0x51, 0xa3, 0x40, 0x8f, 0x92, 0x9d, 0x38, 0xf5, 0xbc, 0xb6, 0xda, 0x21, 0x10, 0xff, 0xf3, 0xd2,
     0xcd, 0x0c, 0x13, 0xec, 0x5f, 0x97, 0x44, 0x17, 0xc4, 0xa7, 0x7e, 0x3d, 0x64, 0x5d, 0x19, 0x73,
     0x60, 0x81, 0x4f, 0xdc, 0x22, 0x2a, 0x90, 0x88, 0x46, 0xee, 0xb8, 0x14, 0xde, 0x5e, 0x0b, 0xdb,
     0xe0, 0x32, 0x3a, 0x0a, 0x49, 0x06, 0x24, 0x5c, 0xc2, 0xd3, 0xac, 0x62, 0x91, 0x95, 0xe4, 0x79,
     0xe7, 0xc8, 0x37, 0x6d, 0x8d, 0xd5, 0x4e, 0xa9, 0x6c, 0x56, 0xf4, 0xea, 0x65, 0x7a, 0xae, 0x08,
     0xba, 0x78, 0x25, 0x2e, 0x1c, 0xa6, 0xb4, 0xc6, 0xe8, 0xdd, 0x74, 0x1f, 0x4b, 0xbd, 0x8b, 0x8a,
     0x70, 0x3e, 0xb5, 0x66, 0x48, 0x03, 0xf6, 0x0e, 0x61, 0x35, 0x57, 0xb9, 0x86, 0xc1, 0x1d, 0x9e,
     0xe1, 0xf8, 0x98, 0x11, 0x69, 0xd9, 0x8e, 0x94, 0x9b, 0x1e, 0x87, 0xe9, 0xce, 0x55, 0x28, 0xdf,
     0x8c, 0xa1, 0x89, 0x0d, 0xbf, 0xe6, 0x42, 0x68, 0x41, 0x99, 0x2d, 0x0f, 0xb0, 0x54, 0xbb, 0x16]"

definition rcon :: "int list" where
  "rcon =
    [0x01, 0x02, 0x04, 0x08, 0x10, 0x20, 0x40, 0x80, 0x1b, 0x36, 0x6c, 0xd8, 0xab, 0x4d, 0x9a, 0x2f]"

section \<open>The class and its constructor\<close>

record AES =
  key_size :: int
  nk :: int
  nr :: int

text \<open>\<open>AES.__init__\<close>: no check of the key size, \<open>nk\<close> and \<open>nr\<close> are derived from it.\<close>

definition AES_init :: "int \<Rightarrow> AES" where
  "AES_init ks = \<lparr>key_size = ks, nk = ks div 32, nr = ks div 32 + 6\<rparr>"

section \<open>Codec\<close>

text \<open>\<open>s.replace(c, '')\<close> for a single character \<open>c\<close>.\<close>

definition remove_char :: "char \<Rightarrow> string \<Rightarrow> string" where
  "remove_char c s = filter (\<lambda>x. x \<noteq> c) s"

text \<open>
  \<open>s.replace('0x', '')\<close>: one scan from the left that drops every occurrence it meets
  and continues behind it, so the occurrences dropped do not overlap and the result is
  not scanned again.
\<close>

fun remove_0x :: "string \<Rightarrow> string" where
  "remove_0x (a # b # cs) =
     (if a = CHR ''0'' \<and> b = CHR ''x'' then remove_0x cs else a # remove_0x (b # cs))"
| "remove_0x cs = cs"

text \<open>
  The value of a hexadecimal digit, in either case (CPython's \<open>_PyLong_DigitValue\<close>
  restricted to the values below 16).
\<close>

definition hex_digit_chars :: "(char \<times> int) list" where
  "hex_digit_chars =
    [(CHR ''0'', 0), (CHR ''1'', 1), (CHR ''2'', 2), (CHR ''3'', 3), (CHR ''4'', 4),
     (CHR ''5'', 5), (CHR ''6'', 6), (CHR ''7'', 7), (CHR ''8'', 8), (CHR ''9'', 9),
     (CHR ''a'', 10), (CHR ''b'', 11), (CHR ''c'', 12), (CHR ''d'', 13), (CHR ''e'', 14),
     (CHR ''f'', 15),
     (CHR ''A'', 10), (CHR ''B'', 11), (CHR ''C'', 12), (CHR ''D'', 13), (CHR ''E'', 14),
     (CHR ''F'', 15)]"

definition hex_value :: "char \<Rightarrow> int option" where
  "hex_value c = map_of hex_digit_chars c"

text \<open>
  ASCII whitespace as \<open>bytes.fromhex\<close> sees it: space, tab, line feed, vertical tab,
  form feed and carriage return.
\<close>

definition is_space :: "char \<Rightarrow> bool" where
  "is_space c = (c \<in> set [CHR 0x20, CHR 0x09, CHR 0x0A, CHR 0x0B, CHR 0x0C, CHR 0x0D])"

text \<open>
  \<open>bytes.fromhex\<close> of the standard library (CPython 3.7 and later, where "ASCII
  whitespace is ignored"): whitespace is skipped in front of a byte, then two
  hexadecimal digits follow with nothing between them; any other character, a
  whitespace between the two digits of a byte, or a missing second digit raises
  \<open>ValueError\<close>.
\<close>

fun fromhex :: "string \<Rightarrow> error + int list" where
  "fromhex [] = Inr []"
| "fromhex (c # cs) =
     (if is_space c then fromhex cs
      else case hex_value c of
        None \<Rightarrow> Inl ValueError
      | Some hi \<Rightarrow>
          (case cs of
             [] \<Rightarrow> Inl ValueError
           | d # ds \<Rightarrow>
               (case hex_value d of
                  None \<Rightarrow> Inl ValueError
                | Some lo \<Rightarrow>
                    (case fromhex ds of
                       Inl e \<Rightarrow> Inl e
                     | Inr bs \<Rightarrow> Inr ((hi * 16 + lo) # bs)))))"

text \<open>The string \<open>hex_to_bytes\<close> hands to \<open>bytes.fromhex\<close>.\<close>

definition cleaned :: "string \<Rightarrow> string" where
  "cleaned hex_string = remove_char CHR 0x0A (remove_0x (remove_char CHR '' '' hex_string))"

definition hex_to_bytes :: "string \<Rightarrow> error + int list" where
  "hex_to_bytes hex_string = fromhex (cleaned hex_string)"

definition lower_digits :: string where
  "lower_digits = ''0123456789abcdef''"

definition upper_digits :: string where
  "upper_digits = ''0123456789ABCDEF''"

text \<open>\<open>str.upper\<close> on the characters \<open>bytes.hex\<close> can produce.\<close>

definition upper_char :: "char \<Rightarrow> char" where
  "upper_char c =
     (if c = CHR ''a'' then CHR ''A'' else if c = CHR ''b'' then CHR ''B''
      else if c = CHR ''c'' then CHR ''C'' else if c = CHR ''d'' then CHR ''D''
      else if c = CHR ''e'' then CHR ''E'' else if c = CHR ''f'' then CHR ''F'' else c)"

text \<open>\<open>data.hex().upper()\<close> for a \<open>bytes\<close> value: two digits per byte.\<close>

definition bytes_to_hex :: "int list \<Rightarrow> string" where
  "bytes_to_hex data =
     map upper_char
       (concat (map (\<lambda>b. [lower_digits ! nat (b div 16), lower_digits ! nat (b mod 16)]) data))"

text \<open>The digits of a natural number in base 16, upper case, most significant first.\<close>

fun upper_hex :: "nat \<Rightarrow> string" where
  "upper_hex n =
     (if n < 16 then [upper_digits ! n] else upper_hex (n div 16) @ [upper_digits ! (n mod 16)])"

declare upper_hex.simps [simp del]

text \<open>The format \<open>f"{byte:02X}"\<close>: sign, then digits, zero-padded to width two.\<close>

definition format_02X :: "int \<Rightarrow> string" where
  "format_02X byte =
     (if byte < 0 then CHR ''-'' # upper_hex (nat (- byte))
      else let ds = upper_hex (nat byte) in if length ds < 2 then CHR ''0'' # ds else ds)"

definition bytes_to_matrix :: "int list \<Rightarrow> error + int list list" where
  "bytes_to_matrix data =
     collect (\<lambda>i. collect (\<lambda>j. py_get data (4 * j + i)) (py_range 0 4)) (py_range 0 4)"

definition matrix_to_bytes :: "int list list \<Rightarrow> error + int list" where
  "matrix_to_bytes matrix =
     for_each (py_range 0 4) (\<lambda>i.
       for_each (py_range 0 4) (\<lambda>j data.
         bind (py_get matrix i) (\<lambda>row.
         bind (py_get row j) (\<lambda>v.
         bytearray_set data (4 * j + i) v))))
       (replicate 16 0)"

definition matrix_to_hex :: "int list list \<Rightarrow> string list list" where
  "matrix_to_hex matrix = map (map format_02X) matrix"

section \<open>Key expansion\<close>

text \<open>One pass of the second loop of \<open>key_expansion\<close>, for the word index \<open>i\<close>.\<close>

definition key_expansion_step :: "AES \<Rightarrow> int \<Rightarrow> int list list \<Rightarrow> error + int list list" where
  "key_expansion_step self i w =
     bind (py_get w (i - 1)) (\<lambda>temp.
     bind (py_mod i (nk self)) (\<lambda>m.
     bind
       (if m = 0 then
          bind (collect (py_get temp) [1, 2, 3, 0]) (\<lambda>temp.
          bind (collect (py_get sbox) temp) (\<lambda>temp.
          bind (py_get temp 0) (\<lambda>t0.
          bind (py_div i (nk self)) (\<lambda>q.
          bind (py_get rcon (q - 1)) (\<lambda>rc.
          py_set temp 0 (t0 XOR rc))))))
        else if nk self > 6 \<and> m = 4 then collect (py_get sbox) temp
        else Inr temp) (\<lambda>temp.
     bind (collect (\<lambda>j.
             bind (py_get w (i - nk self)) (\<lambda>wv.
             bind (py_get wv j) (\<lambda>a.
             bind (py_get temp j) (\<lambda>b. Inr (a XOR b))))) (py_range 0 4)) (\<lambda>word.
     Inr (w @ [word])))))"

definition key_expansion :: "AES \<Rightarrow> string \<Rightarrow> error + int list list" where
  "key_expansion self key =
     bind (hex_to_bytes key) (\<lambda>key_bytes.
     bind (collect (\<lambda>i. collect (\<lambda>k. py_get key_bytes (4 * i + k)) [0, 1, 2, 3])
             (py_range 0 (nk self))) (\<lambda>w.
     for_each (py_range (nk self) (4 * (nr self + 1))) (key_expansion_step self) w))"

section \<open>The round transformations\<close>

definition add_round_key :: "int list list \<Rightarrow> int list list \<Rightarrow> error + int list list" where
  "add_round_key state round_key =
     for_each (py_range 0 4) (\<lambda>i.
       for_each (py_range 0 4) (\<lambda>j state.
         bind (py_get state i) (\<lambda>row.
         bind (py_get row j) (\<lambda>v.
         bind (py_get round_key i) (\<lambda>krow.
         bind (py_get krow j) (\<lambda>k.
         bind (py_set row j (v XOR k)) (\<lambda>row'.
         py_set state i row')))))))
       state"

definition sub_bytes :: "int list list \<Rightarrow> error + int list list" where
  "sub_bytes state =
     for_each (py_range 0 4) (\<lambda>i.
       for_each (py_range 0 4) (\<lambda>j state.
         bind (py_get state i) (\<lambda>row.
         bind (py_get row j) (\<lambda>v.
         bind (py_get sbox v) (\<lambda>s.
         bind (py_set row j s) (\<lambda>row'.
         py_set state i row'))))))
       state"

text \<open>\<open>state[r] = [state[r][a], state[r][b], state[r][c], state[r][d]]\<close>.\<close>

definition shift_row :: "int \<Rightarrow> int list \<Rightarrow> int list list \<Rightarrow> error + int list list" where
  "shift_row r idx state =
     bind (collect (\<lambda>c. bind (py_get state r) (\<lambda>row. py_get row c)) idx) (\<lambda>row'.
     py_set state r row')"

definition shift_rows :: "int list list \<Rightarrow> error + int list list" where
  "shift_rows state =
     bind (shift_row 1 [1, 2, 3, 0] state) (\<lambda>state.
     bind (shift_row 2 [2, 3, 0, 1] state) (\<lambda>state.
     shift_row 3 [3, 0, 1, 2] state))"

text \<open>The body of the loop of \<open>galois_mult\<close>, on the triple \<open>(a, b, p)\<close>.\<close>

definition galois_step :: "int \<times> int \<times> int \<Rightarrow> int \<times> int \<times> int" where
  "galois_step s =
     (case s of (a, b, p) \<Rightarrow>
        let p = (if b AND 1 \<noteq> 0 then p XOR a else p);
            hi_bit_set = a AND 0x80;
            a = push_bit 1 a;
            a = (if hi_bit_set \<noteq> 0 then a XOR 0x1b else a);
            b = drop_bit 1 b
        in (a, b, p))"

definition galois_mult :: "int \<Rightarrow> int \<Rightarrow> int" where
  "galois_mult a b = (case (galois_step ^^ 8) (a, b, 0) of (a', b', p) \<Rightarrow> p AND 0xff)"

text \<open>\<open>state[r][i] = v\<close>.\<close>

definition set_cell :: "int list list \<Rightarrow> int \<Rightarrow> int \<Rightarrow> int \<Rightarrow> error + int list list" where
  "set_cell state r i v =
     bind (py_get state r) (\<lambda>row.
     bind (py_set row i v) (\<lambda>row'.
     py_set state r row'))"

text \<open>\<open>state[r][i]\<close>.\<close>

definition get_cell :: "int list list \<Rightarrow> int \<Rightarrow> int \<Rightarrow> error + int" where
  "get_cell state r i = bind (py_get state r) (\<lambda>row. py_get row i)"

definition mix_columns :: "int list list \<Rightarrow> error + int list list" where
  "mix_columns state =
     for_each (py_range 0 4) (\<lambda>i state.
       bind (get_cell state 0 i) (\<lambda>s0.
       bind (get_cell state 1 i) (\<lambda>s1.
       bind (get_cell state 2 i) (\<lambda>s2.
       bind (get_cell state 3 i) (\<lambda>s3.
       bind (set_cell state 0 i
               (galois_mult 0x02 s0 XOR galois_mult 0x03 s1 XOR s2 XOR s3)) (\<lambda>state.
       bind (set_cell state 1 i
               (s0 XOR galois_mult 0x02 s1 XOR galois_mult 0x03 s2 XOR s3)) (\<lambda>state.
       bind (set_cell state 2 i
               (s0 XOR s1 XOR galois_mult 0x02 s2 XOR galois_mult 0x03 s3)) (\<lambda>state.
       set_cell state 3 i
               (galois_mult 0x03 s0 XOR s1 XOR s2 XOR galois_mult 0x02 s3)))))))))
       state"

section \<open>Encryption with its trace\<close>

text \<open>
  One entry of \<open>results['rounds']\<close>, a dictionary with the keys \<open>round\<close>,
  \<open>operation\<close> and \<open>state\<close>, and one entry of \<open>results['expanded_key']\<close>, with
  the keys \<open>round\<close> and \<open>key\<close>.
\<close>

record round_entry =
  round_no :: int
  operation :: string
  state_hex :: "string list list"

record key_entry =
  key_round :: int
  key_hex :: "string list list"

record results =
  initial_state :: "string list list"
  rounds :: "round_entry list"
  expanded_key :: "key_entry list"
  final_ciphertext :: string

text \<open>
  The 4x4 matrix of the round key \<open>r\<close>, built before every AddRoundKey: row \<open>i\<close>,
  column \<open>j\<close> is \<open>round_keys[r][j][i]\<close>.
\<close>

definition round_key_matrix :: "int list list list \<Rightarrow> int \<Rightarrow> error + int list list" where
  "round_key_matrix round_keys r =
     collect (\<lambda>i.
       collect (\<lambda>j.
         bind (py_get round_keys r) (\<lambda>rk.
         bind (py_get rk j) (\<lambda>word.
         py_get word i))) (py_range 0 4)) (py_range 0 4)"

definition entry :: "int \<Rightarrow> string \<Rightarrow> int list list \<Rightarrow> round_entry" where
  "entry r opn st = \<lparr>round_no = r, operation = opn, state_hex = matrix_to_hex st\<rparr>"

text \<open>The body of the loop over the main rounds, on the state and the entries so far.\<close>

definition main_round ::
  "int list list list \<Rightarrow> int \<Rightarrow> int list list \<times> round_entry list \<Rightarrow>
     error + int list list \<times> round_entry list" where
  "main_round round_keys round_num sr =
     (case sr of (st, rs) \<Rightarrow>
        bind (sub_bytes st) (\<lambda>st.
        let rs = rs @ [entry round_num ''SubBytes'' st] in
        bind (shift_rows st) (\<lambda>st.
        let rs = rs @ [entry round_num ''ShiftRows'' st] in
        bind (mix_columns st) (\<lambda>st.
        let rs = rs @ [entry round_num ''MixColumns'' st] in
        bind (round_key_matrix round_keys round_num) (\<lambda>rkm.
        bind (add_round_key st rkm) (\<lambda>st.
        Inr (st, rs @ [entry round_num ''AddRoundKey'' st])))))))"

text \<open>The final round, without MixColumns.\<close>

definition final_round ::
  "int list list list \<Rightarrow> int \<Rightarrow> int list list \<times> round_entry list \<Rightarrow>
     error + int list list \<times> round_entry list" where
  "final_round round_keys round_num sr =
     (case sr of (st, rs) \<Rightarrow>
        bind (sub_bytes st) (\<lambda>st.
        let rs = rs @ [entry round_num ''SubBytes'' st] in
        bind (shift_rows st) (\<lambda>st.
        let rs = rs @ [entry round_num ''ShiftRows'' st] in
        bind (round_key_matrix round_keys round_num) (\<lambda>rkm.
        bind (add_round_key st rkm) (\<lambda>st.
        Inr (st, rs @ [entry round_num ''Final AddRoundKey'' st]))))))"

text \<open>The first AddRoundKey, which opens the list of entries.\<close>

definition initial_round ::
  "int list list list \<Rightarrow> int list list \<Rightarrow> error + int list list \<times> round_entry list" where
  "initial_round round_keys st =
     bind (round_key_matrix round_keys 0) (\<lambda>rkm.
     bind (add_round_key st rkm) (\<lambda>st.
     Inr (st, [entry 0 ''Initial AddRoundKey'' st])))"

definition encrypt :: "AES \<Rightarrow> string \<Rightarrow> string \<Rightarrow> error + results" where
  "encrypt self plaintext key =
     bind (hex_to_bytes plaintext) (\<lambda>pt_bytes.
     bind (hex_to_bytes key) (\<lambda>key_bytes.
     bind (bytes_to_matrix pt_bytes) (\<lambda>st.
     bind (key_expansion self key) (\<lambda>expanded.
     bind (collect (\<lambda>i. collect (\<lambda>j. py_get expanded (4 * i + j)) (py_range 0 4))
             (py_range 0 (nr self + 1))) (\<lambda>round_keys.
     let initial = matrix_to_hex st in
     bind (collect (\<lambda>i. bind (py_get round_keys i) (\<lambda>rk.
                        Inr \<lparr>key_round = i, key_hex = matrix_to_hex rk\<rparr>))
             (py_range 0 (nr self + 1))) (\<lambda>keys.
     bind (initial_round round_keys st) (\<lambda>sr.
     bind (for_each (py_range 1 (nr self)) (main_round round_keys) sr) (\<lambda>sr.
     bind (final_round round_keys (nr self) sr) (\<lambda>sr.
     bind (matrix_to_bytes (fst sr)) (\<lambda>ciphertext.
     Inr \<lparr>initial_state = initial, rounds = snd sr, expanded_key = keys,
          final_ciphertext = bytes_to_hex ciphertext\<rparr>))))))))))"

section \<open>The route that calls the cipher\<close>

text \<open>
  The answers of the route \<open>/encrypt\<close>: the trace, one of its two length messages
  (status 400), or the exception it caught (status 500). The model starts behind the
  decoding of the request: \<open>message\<close>, \<open>key\<close> and \<open>key_size\<close> are the three values
  read from it.
\<close>

datatype response = Trace results | MessageLength | KeyLength | Caught error

definition encrypt_route :: "string \<Rightarrow> string \<Rightarrow> int \<Rightarrow> response" where
  "encrypt_route message key ks =
     (if length (remove_0x (remove_char CHR '' '' message)) \<noteq> 32 then MessageLength
      else
        let expected_key_length = ks div 4 in
        if int (length (remove_0x (remove_char CHR '' '' key))) \<noteq> expected_key_length
        then KeyLength
        else (case encrypt (AES_init ks) message key of
                Inl e \<Rightarrow> Caught e
              | Inr r \<Rightarrow> Trace r))"
section \<open>Predicates and reference definitions of the statements\<close>

text \<open>A byte, a four-byte word, a 4x4 matrix of integers and a 4x4 matrix of bytes.\<close>

definition is_byte :: "int \<Rightarrow> bool" where
  "is_byte b = (0 \<le> b \<and> b < 256)"

definition is_word :: "int list \<Rightarrow> bool" where
  "is_word w = (length w = 4 \<and> list_all is_byte w)"

definition is_matrix :: "int list list \<Rightarrow> bool" where
  "is_matrix s = (length s = 4 \<and> list_all (\<lambda>r. length r = 4) s)"

definition is_state :: "int list list \<Rightarrow> bool" where
  "is_state s = (length s = 4 \<and> list_all is_word s)"

text \<open>
  The two halves of \<open>galois_step\<close>: what one pass does to \<open>a\<close>, and what \<open>n\<close> passes
  add to \<open>p\<close>.
\<close>

definition xtime :: "int \<Rightarrow> int" where
  "xtime a = (if a AND 0x80 \<noteq> 0 then push_bit 1 a XOR 0x1b else push_bit 1 a)"

fun gsum :: "nat \<Rightarrow> int \<Rightarrow> int \<Rightarrow> int" where
  "gsum 0 a b = 0"
| "gsum (Suc n) a b = (if b AND 1 \<noteq> 0 then a else 0) XOR gsum n (xtime a) (drop_bit 1 b)"

text \<open>
  Multiplication in GF(2^8) as the specification words it: the product of the two
  polynomials over GF(2) (\<open>clmul\<close>, one shifted copy of \<open>a\<close> for every bit set in the
  low \<open>n\<close> bits of \<open>b\<close>), reduced modulo the polynomial 0x11B (\<open>poly_reduce\<close>, which
  clears the bits \<open>8 + n - 1\<close> down to \<open>8\<close> with shifted copies of the modulus).
\<close>

fun clmul :: "nat \<Rightarrow> int \<Rightarrow> int \<Rightarrow> int" where
  "clmul 0 a b = 0"
| "clmul (Suc n) a b = clmul n a b XOR (if bit b n then push_bit n a else 0)"

fun poly_reduce :: "nat \<Rightarrow> int \<Rightarrow> int" where
  "poly_reduce 0 x = x"
| "poly_reduce (Suc n) x = poly_reduce n (if bit x (8 + n) then x XOR push_bit n 0x11B else x)"

definition gf256_mult :: "int \<Rightarrow> int \<Rightarrow> int" where
  "gf256_mult a b = poly_reduce 7 (clmul 8 a b)"

text \<open>
  The key schedule as the specification words it: RotWord rotates the four bytes of a
  word one place to the left, SubWord replaces every byte by its S-box entry, and the
  XOR of two words is byte-wise. \<open>schedule_temp Nk i prev\<close> is the word \<open>temp\<close> for the
  index \<open>i\<close>: RotWord, SubWord and the round constant \<open>Rcon[i/Nk - 1]\<close> on the first byte
  when \<open>i mod Nk = 0\<close>; SubWord alone when \<open>Nk > 6\<close> and \<open>i mod Nk = 4\<close>; the previous
  word unchanged otherwise. \<open>next_word\<close> is the word the schedule puts at index \<open>i\<close>.
\<close>

definition rot_word :: "int list \<Rightarrow> int list" where
  "rot_word w = [w ! 1, w ! 2, w ! 3, w ! 0]"

definition sub_word :: "int list \<Rightarrow> int list" where
  "sub_word w = map (\<lambda>b. sbox ! nat b) w"

definition xor_word :: "int list \<Rightarrow> int list \<Rightarrow> int list" where
  "xor_word a b = map2 (XOR) a b"

definition schedule_temp :: "int \<Rightarrow> int \<Rightarrow> int list \<Rightarrow> int list" where
  "schedule_temp Nk i prev =
     (if i mod Nk = 0 then
        (let t = sub_word (rot_word prev) in t[0 := t ! 0 XOR rcon ! nat (i div Nk - 1)])
      else if Nk > 6 \<and> i mod Nk = 4 then sub_word prev
      else prev)"

definition next_word :: "int \<Rightarrow> int list list \<Rightarrow> int \<Rightarrow> int list" where
  "next_word Nk w i = xor_word (w ! nat (i - Nk)) (schedule_temp Nk i (w ! nat (i - 1)))"

text \<open>
  The round number and the operation of every entry of a trace, and the list the
  specification prescribes for \<open>Nr\<close> rounds: the initial AddRoundKey of round 0, four
  entries for each main round \<open>1 .. Nr - 1\<close>, three entries for the final round \<open>Nr\<close>.
\<close>

definition labels :: "round_entry list \<Rightarrow> (int \<times> string) list" where
  "labels rs = map (\<lambda>e. (round_no e, operation e)) rs"

definition main_labels :: "int \<Rightarrow> (int \<times> string) list" where
  "main_labels r = [(r, ''SubBytes''), (r, ''ShiftRows''), (r, ''MixColumns''), (r, ''AddRoundKey'')]"

definition final_labels :: "int \<Rightarrow> (int \<times> string) list" where
  "final_labels r = [(r, ''SubBytes''), (r, ''ShiftRows''), (r, ''Final AddRoundKey'')]"

definition expected_labels :: "int \<Rightarrow> (int \<times> string) list" where
  "expected_labels Nr =
     (0, ''Initial AddRoundKey'') # concat (map main_labels (py_range 1 Nr)) @ final_labels Nr"

text \<open>
  The four schedule words that make the round key \<open>i\<close>, and the state the first 16
  bytes of a sequence are placed into.
\<close>

definition round_key_words :: "int list list \<Rightarrow> int \<Rightarrow> int list list" where
  "round_key_words w i = [w ! nat (4 * i), w ! nat (4 * i + 1), w ! nat (4 * i + 2), w ! nat (4 * i + 3)]"

definition first_state :: "int list \<Rightarrow> int list list" where
  "first_state data =
     [[data ! 0, data ! 4, data ! 8, data ! 12], [data ! 1, data ! 5, data ! 9, data ! 13],
      [data ! 2, data ! 6, data ! 10, data ! 14], [data ! 3, data ! 7, data ! 11, data ! 15]]"




section \<open>Basic facts about the Python primitives\<close>

lemma bind_Inr [simp]: "bind (Inr x) f = f x"
  by (simp add: bind_def)

lemma bind_Inl [simp]: "bind (Inl e) f = Inl e"
  by (simp add: bind_def)

lemma py_range_0_4 [simp]: "py_range 0 4 = [0, 1, 2, 3]"
  by (simp add: py_range_def upto_rec1)

lemma py_get_nat: "0 \<le> i \<Longrightarrow> i < int (length xs) \<Longrightarrow> py_get xs i = Inr (xs ! nat i)"
  by (simp add: py_get_def py_index_def)

lemma py_get_short: "0 \<le> i \<Longrightarrow> int (length xs) \<le> i \<Longrightarrow> py_get xs i = Inl IndexError"
  by (simp add: py_get_def py_index_def)

lemma py_set_nat: "0 \<le> i \<Longrightarrow> i < int (length xs) \<Longrightarrow> py_set xs i v = Inr (xs[nat i := v])"
  by (simp add: py_set_def py_index_def)

lemma length4E:
  assumes "length xs = 4"
  obtains a b c d where "xs = [a, b, c, d]"
proof -
  from assms obtain a xs1 where 1: "xs = a # xs1" "length xs1 = 3" by (cases xs) auto
  then obtain b xs2 where 2: "xs1 = b # xs2" "length xs2 = 2" by (cases xs1) auto
  then obtain c xs3 where 3: "xs2 = c # xs3" "length xs3 = 1" by (cases xs2) auto
  then obtain d where 4: "xs3 = [d]" by (cases xs3) auto
  from 1 2 3 4 that show thesis by simp
qed

lemma is_matrixE:
  assumes "is_matrix s"
  obtains a0 a1 a2 a3 b0 b1 b2 b3 c0 c1 c2 c3 d0 d1 d2 d3 where
   "s = [[a0, a1, a2, a3], [b0, b1, b2, b3], [c0, c1, c2, c3], [d0, d1, d2, d3]]"
proof -
  from assms have l: "length s = 4" by (simp add: is_matrix_def)
  then obtain r0 r1 r2 r3 where s: "s = [r0, r1, r2, r3]" by (rule length4E)
  with assms have "length r0 = 4" "length r1 = 4" "length r2 = 4" "length r3 = 4"
    by (simp_all add: is_matrix_def)
  then show thesis using s that by (elim length4E) blast
qed

lemma py_get4:
  "py_get [a, b, c, d] 0 = Inr a" "py_get [a, b, c, d] 1 = Inr b"
  "py_get [a, b, c, d] 2 = Inr c" "py_get [a, b, c, d] 3 = Inr d"
  by (simp_all add: py_get_def py_index_def)

lemma py_set4:
  "py_set [a, b, c, d] 0 v = Inr [v, b, c, d]" "py_set [a, b, c, d] 1 v = Inr [a, v, c, d]"
  "py_set [a, b, c, d] 2 v = Inr [a, b, v, d]" "py_set [a, b, c, d] 3 v = Inr [a, b, c, v]"
  by (simp_all add: py_set_def py_index_def eval_nat_numeral)

lemma all_less_4: "(\<forall>c<4::nat. P c) = (P 0 \<and> P 1 \<and> P 2 \<and> P 3)"
proof -
  have "c < 4 \<longleftrightarrow> c = 0 \<or> c = 1 \<or> c = 2 \<or> c = 3" for c :: nat by arith
  then show ?thesis by auto
qed

lemma is_state_matrix: "is_state s \<Longrightarrow> is_matrix s"
  by (auto simp: is_state_def is_matrix_def is_word_def list_all_iff)

lemma length16E:
  assumes "length xs = 16"
  obtains a0 a1 a2 a3 b0 b1 b2 b3 c0 c1 c2 c3 d0 d1 d2 d3 where
    "xs = [a0, a1, a2, a3, b0, b1, b2, b3, c0, c1, c2, c3, d0, d1, d2, d3]"
proof -
  from assms have "\<exists>a0 a1 a2 a3 b0 b1 b2 b3 c0 c1 c2 c3 d0 d1 d2 d3.
    xs = [a0, a1, a2, a3, b0, b1, b2, b3, c0, c1, c2, c3, d0, d1, d2, d3]"
    by (simp add: eval_nat_numeral length_Suc_conv) blast
  then show thesis using that by blast
qed

lemma py_get16:
  "py_get [a0, a1, a2, a3, b0, b1, b2, b3, c0, c1, c2, c3, d0, d1, d2, d3] 0 = Inr a0"
  "py_get [a0, a1, a2, a3, b0, b1, b2, b3, c0, c1, c2, c3, d0, d1, d2, d3] 1 = Inr a1"
  "py_get [a0, a1, a2, a3, b0, b1, b2, b3, c0, c1, c2, c3, d0, d1, d2, d3] 2 = Inr a2"
  "py_get [a0, a1, a2, a3, b0, b1, b2, b3, c0, c1, c2, c3, d0, d1, d2, d3] 3 = Inr a3"
  "py_get [a0, a1, a2, a3, b0, b1, b2, b3, c0, c1, c2, c3, d0, d1, d2, d3] 4 = Inr b0"
  "py_get [a0, a1, a2, a3, b0, b1, b2, b3, c0, c1, c2, c3, d0, d1, d2, d3] 5 = Inr b1"
  "py_get [a0, a1, a2, a3, b0, b1, b2, b3, c0, c1, c2, c3, d0, d1, d2, d3] 6 = Inr b2"
  "py_get [a0, a1, a2, a3, b0, b1, b2, b3, c0, c1, c2, c3, d0, d1, d2, d3] 7 = Inr b3"
  "py_get [a0, a1, a2, a3, b0, b1, b2, b3, c0, c1, c2, c3, d0, d1, d2, d3] 8 = Inr c0"
  "py_get [a0, a1, a2, a3, b0, b1, b2, b3, c0, c1, c2, c3, d0, d1, d2, d3] 9 = Inr c1"
  "py_get [a0, a1, a2, a3, b0, b1, b2, b3, c0, c1, c2, c3, d0, d1, d2, d3] 10 = Inr c2"
  "py_get [a0, a1, a2, a3, b0, b1, b2, b3, c0, c1, c2, c3, d0, d1, d2, d3] 11 = Inr c3"
  "py_get [a0, a1, a2, a3, b0, b1, b2, b3, c0, c1, c2, c3, d0, d1, d2, d3] 12 = Inr d0"
  "py_get [a0, a1, a2, a3, b0, b1, b2, b3, c0, c1, c2, c3, d0, d1, d2, d3] 13 = Inr d1"
  "py_get [a0, a1, a2, a3, b0, b1, b2, b3, c0, c1, c2, c3, d0, d1, d2, d3] 14 = Inr d2"
  "py_get [a0, a1, a2, a3, b0, b1, b2, b3, c0, c1, c2, c3, d0, d1, d2, d3] 15 = Inr d3"
  by (simp_all add: py_get_def py_index_def)

lemma bytes_to_matrix_explicit:
  "bytes_to_matrix [a0, a1, a2, a3, b0, b1, b2, b3, c0, c1, c2, c3, d0, d1, d2, d3] =
   Inr [[a0, b0, c0, d0], [a1, b1, c1, d1], [a2, b2, c2, d2], [a3, b3, c3, d3]]"
  by (simp add: bytes_to_matrix_def py_get16)

lemma matrix_to_bytes_explicit:
  assumes "is_state [[a0, b0, c0, d0], [a1, b1, c1, d1], [a2, b2, c2, d2], [a3, b3, c3, d3]]"
  shows "matrix_to_bytes [[a0, b0, c0, d0], [a1, b1, c1, d1], [a2, b2, c2, d2], [a3, b3, c3, d3]] =
   Inr [a0, a1, a2, a3, b0, b1, b2, b3, c0, c1, c2, c3, d0, d1, d2, d3]"
proof -
  from assms have b: "0 \<le> a0 \<and> a0 < 256" "0 \<le> a1 \<and> a1 < 256" "0 \<le> a2 \<and> a2 < 256"
    "0 \<le> a3 \<and> a3 < 256" "0 \<le> b0 \<and> b0 < 256" "0 \<le> b1 \<and> b1 < 256" "0 \<le> b2 \<and> b2 < 256"
    "0 \<le> b3 \<and> b3 < 256" "0 \<le> c0 \<and> c0 < 256" "0 \<le> c1 \<and> c1 < 256" "0 \<le> c2 \<and> c2 < 256"
    "0 \<le> c3 \<and> c3 < 256" "0 \<le> d0 \<and> d0 < 256" "0 \<le> d1 \<and> d1 < 256" "0 \<le> d2 \<and> d2 < 256"
    "0 \<le> d3 \<and> d3 < 256"
    by (simp_all add: is_state_def is_word_def is_byte_def)
  show ?thesis
    by (simp add: matrix_to_bytes_def bytearray_set_def py_get4 py_set_def py_index_def b eval_nat_numeral)
qed

lemma is_state_nth: "is_state s \<Longrightarrow> r < 4 \<Longrightarrow> c < 4 \<Longrightarrow> is_byte (s ! r ! c)"
  by (simp add: is_state_def is_word_def list_all_length)

section \<open>Multiplication in GF(2^8)\<close>

lemma galois_step_eq:
  "galois_step (a, b, p) = (xtime a, drop_bit 1 b, p XOR (if b AND 1 \<noteq> 0 then a else 0))"
  by (simp add: galois_step_def xtime_def Let_def)

lemma galois_funpow:
  "(galois_step ^^ n) (a, b, p) = ((xtime ^^ n) a, drop_bit n b, p XOR gsum n a b)"
proof (induction n arbitrary: a b p)
  case 0
  show ?case by simp
next
  case (Suc n)
  have "(galois_step ^^ Suc n) (a, b, p) = (galois_step ^^ n) (galois_step (a, b, p))"
    by (simp only: funpow_Suc_right o_apply)
  also have "\<dots> = ((xtime ^^ n) (xtime a), drop_bit n (drop_bit 1 b),
       (p XOR (if b AND 1 \<noteq> 0 then a else 0)) XOR gsum n (xtime a) (drop_bit 1 b))"
    by (simp only: galois_step_eq Suc.IH)
  finally show ?case
    by (simp add: funpow_swap1 xor.assoc)
qed

lemma galois_mult_gsum: "galois_mult a b = gsum 8 a b AND 0xff"
  by (simp add: galois_mult_def galois_funpow)

lemma and_one_xor: "((b XOR c) AND 1 \<noteq> 0) = ((b AND 1 \<noteq> 0) \<noteq> (c AND (1::int) \<noteq> 0))"
  by (simp add: and_one_eq even_xor_iff mod_2_eq_odd)

lemma gsum_xor_right: "gsum n a (b XOR c) = gsum n a b XOR gsum n a c"
proof (induction n arbitrary: a b c)
  case 0
  show ?case by simp
next
  case (Suc n)
  show ?case
    by (simp add: Suc.IH and_one_xor xor.assoc xor.left_commute del: drop_bit_Suc)
qed

lemma and_128_iff: "(a AND (128::int) \<noteq> 0) = bit a 7"
  using and_exp_eq_0_iff_not_bit [of a 7] by simp

lemma xtime_bit: "xtime a = push_bit 1 a XOR (if bit a 7 then 0x1b else 0)"
  by (simp add: xtime_def and_128_iff)

lemma xtime_xor: "xtime (a XOR b) = xtime a XOR xtime b"
  by (simp add: xtime_bit bit_xor_iff xor.assoc xor.left_commute)

lemma gsum_xor_left: "gsum n (a XOR a') b = gsum n a b XOR gsum n a' b"
proof (induction n arbitrary: a a' b)
  case 0
  show ?case by simp
next
  case (Suc n)
  show ?case
    by (simp add: Suc.IH xtime_xor xor.assoc xor.left_commute)
qed

lemma gsum_zero_right [simp]: "gsum n a 0 = 0"
  by (induction n arbitrary: a) simp_all

lemma galois_mult_xor_right:
  "galois_mult a (b XOR c) = galois_mult a b XOR galois_mult a c"
  by (simp add: galois_mult_gsum gsum_xor_right bit.conj_xor_distrib2)

lemma galois_mult_xor_left:
  "galois_mult (a XOR b) c = galois_mult a c XOR galois_mult b c"
  by (simp add: galois_mult_gsum gsum_xor_left bit.conj_xor_distrib2)

lemma is_byte_and_255: "is_byte x \<Longrightarrow> x AND 0xff = x"
proof -
  assume "is_byte x"
  then have "take_bit 8 x = x" by (simp add: take_bit_int_eq_self is_byte_def)
  then show ?thesis by (simp add: take_bit_eq_mask mask_numeral)
qed

lemma is_byte_galois_mult: "is_byte (galois_mult a b)"
proof -
  have "gsum 8 a b AND 255 \<le> 255" by (rule AND_upper2) simp
  then show ?thesis by (simp add: galois_mult_gsum is_byte_def)
qed

lemma galois_mult_zero: "galois_mult a 0 = 0"
  by (simp add: galois_mult_gsum)

lemma galois_mult_one: "is_byte a \<Longrightarrow> galois_mult a 1 = a"
  by (simp add: galois_mult_gsum is_byte_and_255 eval_nat_numeral)

lemma add_exp_eq_xor:
  assumes "0 \<le> y" "y < 2 ^ n"
  shows "y + 2 ^ n = y XOR (2 ^ n :: int)"
proof -
  from assms have "y div 2 ^ n = 0" by simp
  then have "\<not> bit y n" by (simp add: bit_iff_odd)
  then have "y AND 2 ^ n = 0" by (simp add: and_exp_eq_0_iff_not_bit)
  then show ?thesis by (rule disjunctive_add_eq_xor)
qed

lemma linear_ext_below:
  fixes f g :: "int \<Rightarrow> int"
  assumes f: "\<And>a b. f (a XOR b) = f a XOR f b"
    and g: "\<And>a b. g (a XOR b) = g a XOR g b"
    and basis: "\<And>i. i < m \<Longrightarrow> f (2 ^ i) = g (2 ^ i)"
  shows "n \<le> m \<Longrightarrow> 0 \<le> x \<Longrightarrow> x < 2 ^ n \<Longrightarrow> f x = g x"
proof (induction n arbitrary: x)
  case 0
  then have "x = 0" by simp
  moreover have "f 0 = 0" using f [of 0 0] by simp
  moreover have "g 0 = 0" using g [of 0 0] by simp
  ultimately show ?case by simp
next
  case (Suc n)
  show ?case
  proof (cases "x < 2 ^ n")
    case True
    with Suc show ?thesis by simp
  next
    case False
    define y where "y = x - 2 ^ n"
    from False Suc.prems have y: "0 \<le> y" "y < 2 ^ n" by (simp_all add: y_def)
    then have x: "x = y XOR 2 ^ n" using add_exp_eq_xor [of y n] by (simp add: y_def)
    from Suc.prems y have "f y = g y" by (intro Suc.IH) simp_all
    moreover from Suc.prems have "f (2 ^ n) = g (2 ^ n)" by (intro basis) simp
    ultimately show ?thesis by (simp add: x f g)
  qed
qed

lemma byte_linear_ext:
  fixes f g :: "int \<Rightarrow> int"
  assumes "\<And>a b. f (a XOR b) = f a XOR f b"
    and "\<And>a b. g (a XOR b) = g a XOR g b"
    and "\<And>i. i < 8 \<Longrightarrow> f (2 ^ i) = g (2 ^ i)"
    and "is_byte x"
  shows "f x = g x"
  using linear_ext_below [of f g 8 8 x] assms by (simp add: is_byte_def)

lemma galois_mult_basis_comm:
  assumes "i < 8" "j < 8"
  shows "galois_mult (2 ^ i) (2 ^ j) = galois_mult (2 ^ j) (2 ^ i)"
proof -
  have "\<forall>i\<in>set [0..<8]. \<forall>j\<in>set [0..<8]. galois_mult (2 ^ i) (2 ^ j) = galois_mult (2 ^ j) (2 ^ i)"
    by code_simp
  with assms show ?thesis by simp
qed

lemma galois_mult_comm:
  assumes "is_byte x" "is_byte y"
  shows "galois_mult x y = galois_mult y x"
proof -
  have basis: "galois_mult (2 ^ i) y = galois_mult y (2 ^ i)" if "i < 8" for i
    using galois_mult_xor_right galois_mult_xor_left galois_mult_basis_comm [OF that] assms(2)
    by (rule byte_linear_ext [where f = "\<lambda>y. galois_mult (2 ^ i) y" and g = "\<lambda>y. galois_mult y (2 ^ i)"])
  show ?thesis
    using galois_mult_xor_left galois_mult_xor_right basis assms(1)
    by (rule byte_linear_ext [where f = "\<lambda>x. galois_mult x y" and g = "\<lambda>x. galois_mult y x"])
qed

lemma clmul_xor_left: "clmul n (a XOR a') b = clmul n a b XOR clmul n a' b"
  by (induction n) (simp_all add: xor.assoc xor.left_commute)

lemma clmul_xor_right: "clmul n a (b XOR b') = clmul n a b XOR clmul n a b'"
  by (induction n) (simp_all add: bit_xor_iff xor.assoc xor.left_commute)

lemma poly_reduce_xor: "poly_reduce n (x XOR y) = poly_reduce n x XOR poly_reduce n y"
proof (induction n arbitrary: x y)
  case 0
  show ?case by simp
next
  case (Suc n)
  have "(if bit (x XOR y) (8 + n) then (x XOR y) XOR push_bit n 0x11B else x XOR y)
      = (if bit x (8 + n) then x XOR push_bit n 0x11B else x)
        XOR (if bit y (8 + n) then y XOR push_bit n 0x11B else y)"
    by (simp add: bit_xor_iff xor.assoc xor.commute xor.left_commute)
  then show ?case by (simp only: poly_reduce.simps Suc.IH)
qed

lemma gf256_mult_xor_left: "gf256_mult (a XOR a') b = gf256_mult a b XOR gf256_mult a' b"
  by (simp add: gf256_mult_def clmul_xor_left poly_reduce_xor)

lemma gf256_mult_xor_right: "gf256_mult a (b XOR b') = gf256_mult a b XOR gf256_mult a b'"
  by (simp add: gf256_mult_def clmul_xor_right poly_reduce_xor)

lemma galois_mult_basis_gf256:
  assumes "i < 8" "j < 8"
  shows "galois_mult (2 ^ i) (2 ^ j) = gf256_mult (2 ^ i) (2 ^ j)"
proof -
  have "\<forall>i\<in>set [0..<8]. \<forall>j\<in>set [0..<8]. galois_mult (2 ^ i) (2 ^ j) = gf256_mult (2 ^ i) (2 ^ j)"
    by code_simp
  with assms show ?thesis by simp
qed

lemma galois_mult_gf256:
  assumes "is_byte x" "is_byte y"
  shows "galois_mult x y = gf256_mult x y"
proof -
  have basis: "galois_mult (2 ^ i) y = gf256_mult (2 ^ i) y" if "i < 8" for i
    using galois_mult_xor_right gf256_mult_xor_right galois_mult_basis_gf256 [OF that] assms(2)
    by (rule byte_linear_ext [where f = "\<lambda>y. galois_mult (2 ^ i) y" and g = "\<lambda>y. gf256_mult (2 ^ i) y"])
  show ?thesis
    using galois_mult_xor_left gf256_mult_xor_left basis assms(1)
    by (rule byte_linear_ext [where f = "\<lambda>x. galois_mult x y" and g = "\<lambda>x. gf256_mult x y"])
qed

text \<open>
  C8: for bytes \<open>x\<close>, \<open>y\<close> and \<open>z\<close>, \<open>galois_mult x 1 = x\<close>, \<open>galois_mult x 0 = 0\<close>,
  \<open>galois_mult\<close> is commutative and distributes over XOR in its second argument, and
  its result is a byte.
\<close>

theorem galois_mult_laws:
  assumes "is_byte x" "is_byte y" "is_byte z"
  shows "galois_mult x 1 = x \<and> galois_mult x 0 = 0 \<and> galois_mult x y = galois_mult y x \<and>
         galois_mult x (y XOR z) = galois_mult x y XOR galois_mult x z \<and>
         is_byte (galois_mult x y)"
  using assms
  by (simp add: galois_mult_one galois_mult_zero galois_mult_comm [of x y] galois_mult_xor_right
        is_byte_galois_mult)

theorem galois_mult_laws_witness:
  "is_byte 0x57 \<and> is_byte 0x83 \<and> is_byte 0x13 \<and>
   galois_mult 0x57 1 = 0x57 \<and> galois_mult 0x57 0 = 0 \<and>
   galois_mult 0x57 0x83 = galois_mult 0x83 0x57 \<and>
   galois_mult 0x57 (0x83 XOR 0x13) = galois_mult 0x57 0x83 XOR galois_mult 0x57 0x13 \<and>
   is_byte (galois_mult 0x57 0x83)"
proof -
  have b: "is_byte 0x57" "is_byte 0x83" "is_byte 0x13" by (simp_all add: is_byte_def)
  from galois_mult_laws [OF b] b show ?thesis by blast
qed

section \<open>The state matrix and the byte sequence\<close>

text \<open>
  C7: \<open>bytes_to_matrix\<close> and \<open>matrix_to_bytes\<close> are mutually inverse under the
  column-major placement: a sequence of 16 bytes is turned into the matrix whose row
  \<open>r\<close>, column \<open>c\<close> holds the byte at offset \<open>4 * c + r\<close> and comes back unchanged,
  and a 4x4 matrix of bytes is turned into the sequence with that placement and comes
  back unchanged.
\<close>

theorem bytes_matrix_round_trip:
  "(length b = 16 \<and> list_all is_byte b \<longrightarrow>
      (\<exists>m. bytes_to_matrix b = Inr m \<and> (\<forall>r<4. \<forall>c<4. m ! r ! c = b ! (4 * c + r)) \<and>
           matrix_to_bytes m = Inr b)) \<and>
   (is_state s \<longrightarrow>
      (\<exists>d. matrix_to_bytes s = Inr d \<and> (\<forall>r<4. \<forall>c<4. d ! (4 * c + r) = s ! r ! c) \<and>
           bytes_to_matrix d = Inr s))"
proof (intro conjI impI)
  assume "length b = 16 \<and> list_all is_byte b"
  then have len: "length b = 16" and bytes: "list_all is_byte b" by simp_all
  from len obtain a0 a1 a2 a3 b0 b1 b2 b3 c0 c1 c2 c3 d0 d1 d2 d3 where
    b: "b = [a0, a1, a2, a3, b0, b1, b2, b3, c0, c1, c2, c3, d0, d1, d2, d3]"
    by (rule length16E)
  from bytes have st: "is_state [[a0, b0, c0, d0], [a1, b1, c1, d1], [a2, b2, c2, d2], [a3, b3, c3, d3]]"
    by (simp add: b is_state_def is_word_def)
  show "\<exists>m. bytes_to_matrix b = Inr m \<and> (\<forall>r<4. \<forall>c<4. m ! r ! c = b ! (4 * c + r)) \<and>
           matrix_to_bytes m = Inr b"
    unfolding b bytes_to_matrix_explicit
    by (simp add: matrix_to_bytes_explicit [OF st] all_less_4)
next
  assume st: "is_state s"
  then have "is_matrix s" by (rule is_state_matrix)
  then obtain a0 b0 c0 d0 a1 b1 c1 d1 a2 b2 c2 d2 a3 b3 c3 d3 where
    s: "s = [[a0, b0, c0, d0], [a1, b1, c1, d1], [a2, b2, c2, d2], [a3, b3, c3, d3]]"
    by (rule is_matrixE)
  show "\<exists>d. matrix_to_bytes s = Inr d \<and> (\<forall>r<4. \<forall>c<4. d ! (4 * c + r) = s ! r ! c) \<and>
           bytes_to_matrix d = Inr s"
    using st unfolding s
    by (simp add: matrix_to_bytes_explicit bytes_to_matrix_explicit all_less_4)
qed

theorem bytes_matrix_round_trip_witness:
  "(\<exists>m. bytes_to_matrix [0, 1, 2, 3, 4, 5, 6, 7, 8, 9, 10, 11, 12, 13, 14, 15] = Inr m \<and>
        (\<forall>r<4. \<forall>c<4. m ! r ! c = [0, 1, 2, 3, 4, 5, 6, 7, 8, 9, 10, 11, 12, 13, 14, 15] ! (4 * c + r)) \<and>
        matrix_to_bytes m = Inr [0, 1, 2, 3, 4, 5, 6, 7, 8, 9, 10, 11, 12, 13, 14, 15]) \<and>
   (\<exists>d. matrix_to_bytes [[0, 4, 8, 12], [1, 5, 9, 13], [2, 6, 10, 14], [3, 7, 11, 255]] = Inr d \<and>
        (\<forall>r<4. \<forall>c<4. d ! (4 * c + r) = [[0, 4, 8, 12], [1, 5, 9, 13], [2, 6, 10, 14], [3, 7, 11, 255]] ! r ! c) \<and>
        bytes_to_matrix d = Inr [[0, 4, 8, 12], [1, 5, 9, 13], [2, 6, 10, 14], [3, 7, 11, 255]])"
  using bytes_matrix_round_trip [of "[0, 1, 2, 3, 4, 5, 6, 7, 8, 9, 10, 11, 12, 13, 14, 15]"
     "[[0, 4, 8, 12], [1, 5, 9, 13], [2, 6, 10, 14], [3, 7, 11, 255]]"]
  by (simp add: is_state_def is_word_def is_byte_def)

section \<open>MixColumns\<close>

lemma mix_columns_explicit:
  "mix_columns [[a0, a1, a2, a3], [b0, b1, b2, b3], [c0, c1, c2, c3], [d0, d1, d2, d3]] =
   Inr [[galois_mult 2 a0 XOR galois_mult 3 b0 XOR c0 XOR d0,
         galois_mult 2 a1 XOR galois_mult 3 b1 XOR c1 XOR d1,
         galois_mult 2 a2 XOR galois_mult 3 b2 XOR c2 XOR d2,
         galois_mult 2 a3 XOR galois_mult 3 b3 XOR c3 XOR d3],
        [a0 XOR galois_mult 2 b0 XOR galois_mult 3 c0 XOR d0,
         a1 XOR galois_mult 2 b1 XOR galois_mult 3 c1 XOR d1,
         a2 XOR galois_mult 2 b2 XOR galois_mult 3 c2 XOR d2,
         a3 XOR galois_mult 2 b3 XOR galois_mult 3 c3 XOR d3],
        [a0 XOR b0 XOR galois_mult 2 c0 XOR galois_mult 3 d0,
         a1 XOR b1 XOR galois_mult 2 c1 XOR galois_mult 3 d1,
         a2 XOR b2 XOR galois_mult 2 c2 XOR galois_mult 3 d2,
         a3 XOR b3 XOR galois_mult 2 c3 XOR galois_mult 3 d3],
        [galois_mult 3 a0 XOR b0 XOR c0 XOR galois_mult 2 d0,
         galois_mult 3 a1 XOR b1 XOR c1 XOR galois_mult 2 d1,
         galois_mult 3 a2 XOR b2 XOR c2 XOR galois_mult 2 d2,
         galois_mult 3 a3 XOR b3 XOR c3 XOR galois_mult 2 d3]]"
  by (simp add: mix_columns_def get_cell_def set_cell_def py_get4 py_set4)

lemma is_byte_xor: "is_byte a \<Longrightarrow> is_byte b \<Longrightarrow> is_byte (a XOR b)"
proof -
  assume "is_byte a" "is_byte b"
  then have "take_bit 8 a = a" "take_bit 8 b = b"
    by (simp_all add: take_bit_int_eq_self is_byte_def)
  then have "take_bit 8 (a XOR b) = a XOR b" by (simp add: take_bit_xor)
  then have "0 \<le> a XOR b \<and> a XOR b < 2 ^ 8"
    by (metis take_bit_nonnegative take_bit_int_less_exp)
  then show ?thesis by (simp add: is_byte_def)
qed

lemma mix_columns_matrix:
  assumes "is_matrix s"
  shows "\<exists>t. mix_columns s = Inr t \<and> is_matrix t \<and>
    (\<forall>c<4.
       t ! 0 ! c = galois_mult 2 (s ! 0 ! c) XOR galois_mult 3 (s ! 1 ! c) XOR s ! 2 ! c XOR s ! 3 ! c \<and>
       t ! 1 ! c = s ! 0 ! c XOR galois_mult 2 (s ! 1 ! c) XOR galois_mult 3 (s ! 2 ! c) XOR s ! 3 ! c \<and>
       t ! 2 ! c = s ! 0 ! c XOR s ! 1 ! c XOR galois_mult 2 (s ! 2 ! c) XOR galois_mult 3 (s ! 3 ! c) \<and>
       t ! 3 ! c = galois_mult 3 (s ! 0 ! c) XOR s ! 1 ! c XOR s ! 2 ! c XOR galois_mult 2 (s ! 3 ! c))"
proof -
  from assms obtain a0 a1 a2 a3 b0 b1 b2 b3 c0 c1 c2 c3 d0 d1 d2 d3 where
    s: "s = [[a0, a1, a2, a3], [b0, b1, b2, b3], [c0, c1, c2, c3], [d0, d1, d2, d3]]"
    by (rule is_matrixE)
  show ?thesis
    unfolding s mix_columns_explicit
    by (simp add: is_matrix_def all_less_4)
qed

lemma mix_columns_state:
  assumes "is_state s"
  shows "\<exists>t. mix_columns s = Inr t \<and> is_state t"
proof -
  from assms have "is_matrix s" by (rule is_state_matrix)
  then obtain a0 a1 a2 a3 b0 b1 b2 b3 c0 c1 c2 c3 d0 d1 d2 d3 where
    s: "s = [[a0, a1, a2, a3], [b0, b1, b2, b3], [c0, c1, c2, c3], [d0, d1, d2, d3]]"
    by (rule is_matrixE)
  from assms show ?thesis
    unfolding s mix_columns_explicit
    by (simp add: is_state_def is_word_def is_byte_xor is_byte_galois_mult)
qed

text \<open>
  C6: MixColumns replaces every column \<open>[s0, s1, s2, s3]\<close> of a state, independently
  of the other columns, by \<open>2.s0 + 3.s1 + s2 + s3\<close>, \<open>s0 + 2.s1 + 3.s2 + s3\<close>,
  \<open>s0 + s1 + 2.s2 + 3.s3\<close> and \<open>3.s0 + s1 + s2 + 2.s3\<close>, where the product is the
  multiplication in GF(2^8) modulo 0x11B and the sum is XOR.
\<close>

theorem mix_columns_formula:
  assumes "is_state s"
  shows "\<exists>t. mix_columns s = Inr t \<and> is_state t \<and>
    (\<forall>c<4.
       t ! 0 ! c = gf256_mult 2 (s ! 0 ! c) XOR gf256_mult 3 (s ! 1 ! c) XOR s ! 2 ! c XOR s ! 3 ! c \<and>
       t ! 1 ! c = s ! 0 ! c XOR gf256_mult 2 (s ! 1 ! c) XOR gf256_mult 3 (s ! 2 ! c) XOR s ! 3 ! c \<and>
       t ! 2 ! c = s ! 0 ! c XOR s ! 1 ! c XOR gf256_mult 2 (s ! 2 ! c) XOR gf256_mult 3 (s ! 3 ! c) \<and>
       t ! 3 ! c = gf256_mult 3 (s ! 0 ! c) XOR s ! 1 ! c XOR s ! 2 ! c XOR gf256_mult 2 (s ! 3 ! c))"
proof -
  from assms have "is_matrix s" by (rule is_state_matrix)
  from mix_columns_matrix [OF this] obtain t where
    t: "mix_columns s = Inr t"
    and f: "\<forall>c<4.
       t ! 0 ! c = galois_mult 2 (s ! 0 ! c) XOR galois_mult 3 (s ! 1 ! c) XOR s ! 2 ! c XOR s ! 3 ! c \<and>
       t ! 1 ! c = s ! 0 ! c XOR galois_mult 2 (s ! 1 ! c) XOR galois_mult 3 (s ! 2 ! c) XOR s ! 3 ! c \<and>
       t ! 2 ! c = s ! 0 ! c XOR s ! 1 ! c XOR galois_mult 2 (s ! 2 ! c) XOR galois_mult 3 (s ! 3 ! c) \<and>
       t ! 3 ! c = galois_mult 3 (s ! 0 ! c) XOR s ! 1 ! c XOR s ! 2 ! c XOR galois_mult 2 (s ! 3 ! c)"
    by blast
  from mix_columns_state [OF assms] t have st: "is_state t" by simp
  have k: "is_byte 2" "is_byte 3" by (simp_all add: is_byte_def)
  have g: "galois_mult 2 (s ! r ! c) = gf256_mult 2 (s ! r ! c)"
          "galois_mult 3 (s ! r ! c) = gf256_mult 3 (s ! r ! c)" if "r < 4" "c < 4" for r c
    using is_state_nth [OF assms that] k by (simp_all add: galois_mult_gf256)
  have "\<forall>c<4.
       t ! 0 ! c = gf256_mult 2 (s ! 0 ! c) XOR gf256_mult 3 (s ! 1 ! c) XOR s ! 2 ! c XOR s ! 3 ! c \<and>
       t ! 1 ! c = s ! 0 ! c XOR gf256_mult 2 (s ! 1 ! c) XOR gf256_mult 3 (s ! 2 ! c) XOR s ! 3 ! c \<and>
       t ! 2 ! c = s ! 0 ! c XOR s ! 1 ! c XOR gf256_mult 2 (s ! 2 ! c) XOR gf256_mult 3 (s ! 3 ! c) \<and>
       t ! 3 ! c = gf256_mult 3 (s ! 0 ! c) XOR s ! 1 ! c XOR s ! 2 ! c XOR gf256_mult 2 (s ! 3 ! c)"
  proof (intro allI impI)
    fix c :: nat
    assume c: "c < 4"
    have r: "(0::nat) < 4" "(1::nat) < 4" "(2::nat) < 4" "(3::nat) < 4" by simp_all
    from f c show "t ! 0 ! c = gf256_mult 2 (s ! 0 ! c) XOR gf256_mult 3 (s ! 1 ! c) XOR s ! 2 ! c XOR s ! 3 ! c \<and>
       t ! 1 ! c = s ! 0 ! c XOR gf256_mult 2 (s ! 1 ! c) XOR gf256_mult 3 (s ! 2 ! c) XOR s ! 3 ! c \<and>
       t ! 2 ! c = s ! 0 ! c XOR s ! 1 ! c XOR gf256_mult 2 (s ! 2 ! c) XOR gf256_mult 3 (s ! 3 ! c) \<and>
       t ! 3 ! c = gf256_mult 3 (s ! 0 ! c) XOR s ! 1 ! c XOR s ! 2 ! c XOR gf256_mult 2 (s ! 3 ! c)"
      by (simp only: g [OF r(1) c, symmetric] g [OF r(2) c, symmetric] g [OF r(3) c, symmetric]
            g [OF r(4) c, symmetric])
  qed
  with t st show ?thesis by blast
qed

theorem mix_columns_formula_witness:
  "is_state [[0x63, 0x09, 0xCD, 0xBA], [0x53, 0x60, 0x70, 0xCA], [0xE0, 0xE1, 0xB7, 0xD0], [0x8C, 0x04, 0x51, 0xE7]]
   \<and> (\<exists>t. mix_columns [[0x63, 0x09, 0xCD, 0xBA], [0x53, 0x60, 0x70, 0xCA], [0xE0, 0xE1, 0xB7, 0xD0], [0x8C, 0x04, 0x51, 0xE7]] = Inr t
        \<and> is_state t)"
proof -
  have st: "is_state [[0x63, 0x09, 0xCD, 0xBA], [0x53, 0x60, 0x70, 0xCA], [0xE0, 0xE1, 0xB7, 0xD0], [0x8C, 0x04, 0x51, 0xE7]]"
    by (simp add: is_state_def is_word_def is_byte_def)
  from mix_columns_formula [OF st] st show ?thesis by blast
qed

section \<open>Decoding of hexadecimal text\<close>

lemma hex_value_byte: "hex_value c = Some v \<Longrightarrow> 0 \<le> v \<and> v < 16"
  by (auto simp: hex_value_def hex_digit_chars_def split: if_splits)

lemma hex_value_space: "is_space c \<Longrightarrow> hex_value c = None"
proof -
  assume "is_space c"
  then have "c = CHR 0x20 \<or> c = CHR 0x09 \<or> c = CHR 0x0A \<or> c = CHR 0x0B \<or> c = CHR 0x0C \<or> c = CHR 0x0D"
    by (simp add: is_space_def)
  then show ?thesis
    by (elim disjE) (simp_all add: hex_value_def hex_digit_chars_def)
qed

lemma fromhex_cases:
  "fromhex t = Inl ValueError \<or>
   (\<exists>bs. fromhex t = Inr bs \<and> list_all is_byte bs \<and>
         length (filter (\<lambda>x. \<not> is_space x) t) = 2 * length bs \<and>
         (\<forall>x\<in>set t. \<not> is_space x \<longrightarrow> hex_value x \<noteq> None))"
proof (induction t rule: fromhex.induct)
  case 1
  show ?case by simp
next
  case (2 c cs)
  show ?case
  proof (cases "is_space c")
    case True
    with 2(1) show ?thesis by auto
  next
    case sp: False
    show ?thesis
    proof (cases "hex_value c")
      case None
      with sp show ?thesis by simp
    next
      case (Some hi)
      show ?thesis
      proof (cases cs)
        case Nil
        with sp Some show ?thesis by simp
      next
        case (Cons d ds)
        show ?thesis
        proof (cases "hex_value d")
          case None
          with sp Some Cons show ?thesis by simp
        next
          case lo: (Some lo)
          from lo have dsp: "\<not> is_space d" using hex_value_space [of d] by auto
          from hex_value_byte [OF Some] hex_value_byte [OF lo]
          have b: "is_byte (hi * 16 + lo)" by (simp add: is_byte_def)
          from 2(2) [OF sp Some Cons lo]
          show ?thesis using sp Some Cons lo dsp b by (auto split: sum.splits)
        qed
      qed
    qed
  qed
qed

lemma fromhex_error: "fromhex t = Inl e \<Longrightarrow> e = ValueError"
  using fromhex_cases [of t] by auto

lemma fromhex_bytes:
  assumes "fromhex t = Inr bs"
  shows "list_all is_byte bs" "length (filter (\<lambda>x. \<not> is_space x) t) = 2 * length bs"
    "\<forall>x\<in>set t. \<not> is_space x \<longrightarrow> hex_value x \<noteq> None"
  using fromhex_cases [of t] assms by auto

lemma fromhex_length: "fromhex t = Inr bs \<Longrightarrow> 2 * length bs \<le> length t"
proof -
  assume "fromhex t = Inr bs"
  then have "length (filter (\<lambda>x. \<not> is_space x) t) = 2 * length bs" by (rule fromhex_bytes)
  moreover have "length (filter (\<lambda>x. \<not> is_space x) t) \<le> length t" by (rule length_filter_le)
  ultimately show ?thesis by simp
qed









lemma remove_0x_append: "remove_0x (xs @ ''0x'' @ ys) = remove_0x xs @ remove_0x ys"
  by (induction xs rule: remove_0x.induct) simp_all

lemma set_remove_0x: "set (remove_0x t) \<subseteq> set t"
  by (induction t rule: remove_0x.induct) auto

lemma remove_0x_keeps:
  "c \<in> set t \<Longrightarrow> c \<noteq> CHR ''0'' \<Longrightarrow> c \<noteq> CHR ''x'' \<Longrightarrow> c \<in> set (remove_0x t)"
  by (induction t rule: remove_0x.induct) auto

lemma cleaned_append_0x: "cleaned (xs @ ''0x'' @ ys) = cleaned xs @ cleaned ys"
proof -
  have "remove_char CHR '' '' (xs @ ''0x'' @ ys)
      = remove_char CHR '' '' xs @ ''0x'' @ remove_char CHR '' '' ys"
    by (simp add: remove_char_def)
  then show ?thesis
    by (simp only: cleaned_def remove_0x_append) (simp add: remove_char_def)
qed

lemma cleaned_no_space: "CHR '' '' \<notin> set (cleaned s)"
proof -
  have "set (cleaned s) \<subseteq> set (remove_0x (remove_char CHR '' '' s))"
    by (auto simp: cleaned_def remove_char_def)
  also have "\<dots> \<subseteq> set (remove_char CHR '' '' s)" by (rule set_remove_0x)
  finally show ?thesis by (auto simp: remove_char_def)
qed

lemma cleaned_no_newline: "CHR 0x0A \<notin> set (cleaned s)"
  by (simp add: cleaned_def remove_char_def)

lemma cleaned_keeps:
  assumes "c \<in> set s" "c \<noteq> CHR '' ''" "c \<noteq> CHR 0x0A" "c \<noteq> CHR ''0''" "c \<noteq> CHR ''x''"
  shows "c \<in> set (cleaned s)"
proof -
  from assms have "c \<in> set (remove_char CHR '' '' s)" by (simp add: remove_char_def)
  with assms have "c \<in> set (remove_0x (remove_char CHR '' '' s))" by (intro remove_0x_keeps)
  with assms show ?thesis by (simp add: cleaned_def remove_char_def)
qed

lemma fromhex_append:
  "fromhex xs = Inr as \<Longrightarrow>
   fromhex (xs @ ys) = (case fromhex ys of Inl e \<Rightarrow> Inl e | Inr bs \<Rightarrow> Inr (as @ bs))"
proof (induction xs arbitrary: as rule: fromhex.induct)
  case 1
  then show ?case by (simp split: sum.split)
next
  case (2 c cs)
  show ?case
  proof (cases "is_space c")
    case True
    with 2(3) have "fromhex cs = Inr as" by simp
    from 2(1) [OF True this] True show ?thesis by simp
  next
    case sp: False
    from 2(3) sp obtain hi where hi: "hex_value c = Some hi"
      by (cases "hex_value c") simp_all
    from 2(3) sp hi obtain d ds where cs: "cs = d # ds"
      by (cases cs) simp_all
    from 2(3) sp hi cs obtain lo where lo: "hex_value d = Some lo"
      by (cases "hex_value d") simp_all
    from 2(3) sp hi cs lo obtain as' where as': "fromhex ds = Inr as'" "as = (hi * 16 + lo) # as'"
      by (cases "fromhex ds") simp_all
    note IH = 2(2) [OF sp hi cs lo as'(1)]
    have "fromhex ((c # cs) @ ys) =
        (case fromhex (ds @ ys) of Inl e \<Rightarrow> Inl e | Inr bs \<Rightarrow> Inr ((hi * 16 + lo) # bs))"
      using sp hi cs lo by simp
    also have "\<dots> = (case fromhex ys of Inl e \<Rightarrow> Inl e | Inr bs \<Rightarrow> Inr (as @ bs))"
      by (simp add: IH as'(2) split: sum.split)
    finally show ?thesis .
  qed
qed

lemma remove_0x_Cons_other: "c \<noteq> CHR ''0'' \<Longrightarrow> remove_0x (c # ys) = c # remove_0x ys"
  by (cases ys) simp_all

lemma remove_0x_append_other:
  "c \<noteq> CHR ''0'' \<Longrightarrow> c \<noteq> CHR ''x'' \<Longrightarrow>
   remove_0x (xs @ c # ys) = remove_0x xs @ c # remove_0x ys"
  by (induction xs rule: remove_0x.induct) (simp_all add: remove_0x_Cons_other)

lemma remove_0x_snoc: "h \<noteq> CHR ''x'' \<Longrightarrow> remove_0x (xs @ [h]) = remove_0x xs @ [h]"
  by (induction xs rule: remove_0x.induct) simp_all

lemma cleaned_append_tab: "cleaned (xs @ CHR 0x09 # ys) = cleaned xs @ CHR 0x09 # cleaned ys"
proof -
  have "remove_0x (remove_char CHR '' '' xs @ CHR 0x09 # remove_char CHR '' '' ys) =
        remove_0x (remove_char CHR '' '' xs) @ CHR 0x09 # remove_0x (remove_char CHR '' '' ys)"
    by (rule remove_0x_append_other) simp_all
  then show ?thesis by (simp add: cleaned_def remove_char_def)
qed

lemma hex_value_chars:
  assumes "hex_value h \<noteq> None"
  shows "h \<noteq> CHR ''x''" "h \<noteq> CHR '' ''" "h \<noteq> CHR 0x0A" "\<not> is_space h"
proof -
  have "hex_value CHR ''x'' = None" "hex_value CHR '' '' = None" "hex_value CHR 0x0A = None"
    by (simp_all add: hex_value_def hex_digit_chars_def)
  with assms show "h \<noteq> CHR ''x''" "h \<noteq> CHR '' ''" "h \<noteq> CHR 0x0A" by auto
  from assms hex_value_space [of h] show "\<not> is_space h" by auto
qed

lemma cleaned_snoc_digit:
  assumes "hex_value h \<noteq> None"
  shows "cleaned (xs @ [h]) = cleaned xs @ [h]"
proof -
  note c = hex_value_chars [OF assms]
  have "remove_0x (remove_char CHR '' '' xs @ [h]) = remove_0x (remove_char CHR '' '' xs) @ [h]"
    using c(1) by (rule remove_0x_snoc)
  with c show ?thesis by (simp add: cleaned_def remove_char_def)
qed

lemma hex_to_bytes_tab_in_byte:
  assumes "hex_to_bytes xs = Inr as" "hex_value h \<noteq> None"
  shows "hex_to_bytes (xs @ h # CHR 0x09 # ys) = Inl ValueError"
proof -
  have "cleaned (xs @ h # CHR 0x09 # ys) = cleaned ((xs @ [h]) @ CHR 0x09 # ys)" by simp
  also have "\<dots> = cleaned (xs @ [h]) @ CHR 0x09 # cleaned ys" by (rule cleaned_append_tab)
  also have "\<dots> = cleaned xs @ (h # CHR 0x09 # cleaned ys)"
    by (simp add: cleaned_snoc_digit [OF assms(2)])
  finally have c: "cleaned (xs @ h # CHR 0x09 # ys) = cleaned xs @ (h # CHR 0x09 # cleaned ys)" .
  from assms(2) obtain hi where hi: "hex_value h = Some hi" by auto
  have "hex_value (CHR 0x09) = None" by (simp add: hex_value_def hex_digit_chars_def)
  with hi hex_value_chars(4) [OF assms(2)]
  have "fromhex (h # CHR 0x09 # cleaned ys) = Inl ValueError" by simp
  moreover from assms(1) have "fromhex (cleaned xs) = Inr as" by (simp add: hex_to_bytes_def)
  ultimately show ?thesis
    by (simp add: hex_to_bytes_def c fromhex_append)
qed

lemma hex_to_bytes_tab_between_bytes:
  assumes "hex_to_bytes xs = Inr as" "hex_to_bytes ys = Inr bs"
  shows "hex_to_bytes (xs @ CHR 0x09 # ys) = Inr (as @ bs)"
proof -
  from assms have f: "fromhex (cleaned xs) = Inr as" "fromhex (cleaned ys) = Inr bs"
    by (simp_all add: hex_to_bytes_def)
  have "is_space (CHR 0x09)" by (simp add: is_space_def)
  with f(2) have "fromhex (CHR 0x09 # cleaned ys) = Inr bs" by simp
  with f(1) show ?thesis
    by (simp add: hex_to_bytes_def cleaned_append_tab fromhex_append)
qed

lemma hex_to_bytes_0x_between_bytes:
  assumes "hex_to_bytes xs = Inr as" "hex_to_bytes ys = Inr bs"
  shows "hex_to_bytes (xs @ ''0x'' @ ys) = Inr (as @ bs)"
proof -
  from assms have f: "fromhex (cleaned xs) = Inr as" "fromhex (cleaned ys) = Inr bs"
    by (simp_all add: hex_to_bytes_def)
  then show ?thesis
    by (simp only: hex_to_bytes_def cleaned_append_0x fromhex_append [OF f(1)] sum.case)
qed

text \<open>
  C10, as amended. The cleaned string \<open>cleaned s\<close> that \<open>hex_to_bytes\<close> hands to the
  decoder holds no space and no line feed, and an occurrence of \<open>0x\<close> anywhere in the
  input is dropped: the text on its two sides is cleaned as if it stood alone, and when
  both sides decode, the whole decodes to the bytes of both, as \<open>AB0xCD\<close> does to AB, CD.
  A tab is not removed by \<open>hex_to_bytes\<close>. Behind any input that decodes and one further
  hexadecimal digit, that is between the two digits of a byte, it makes the call raise
  \<open>ValueError\<close>; between any two inputs that decode, the decoder ignores it and the call
  returns the bytes of both.
\<close>

theorem hex_to_bytes_deletions:
  "CHR '' '' \<notin> set (cleaned s) \<and> CHR 0x0A \<notin> set (cleaned s) \<and>
   cleaned (xs @ ''0x'' @ ys) = cleaned xs @ cleaned ys \<and>
   (hex_to_bytes xs = Inr as \<and> hex_to_bytes ys = Inr bs \<longrightarrow>
      hex_to_bytes (xs @ ''0x'' @ ys) = Inr (as @ bs)) \<and>
   hex_to_bytes ''AB0xCD'' = Inr [0xAB, 0xCD] \<and>
   (CHR 0x09 \<in> set s \<longrightarrow> CHR 0x09 \<in> set (cleaned s)) \<and>
   (hex_to_bytes xs = Inr as \<and> hex_value h \<noteq> None \<longrightarrow>
      hex_to_bytes (xs @ h # CHR 0x09 # ys) = Inl ValueError) \<and>
   (hex_to_bytes xs = Inr as \<and> hex_to_bytes ys = Inr bs \<longrightarrow>
      hex_to_bytes (xs @ CHR 0x09 # ys) = Inr (as @ bs))"
proof -
  have 1: "hex_to_bytes ''AB0xCD'' = Inr [0xAB, 0xCD]"
    by (simp add: hex_to_bytes_def cleaned_def remove_char_def is_space_def hex_value_def
          hex_digit_chars_def)
  have 2: "CHR 0x09 \<in> set s \<longrightarrow> CHR 0x09 \<in> set (cleaned s)"
    by (auto intro: cleaned_keeps)
  have 3: "hex_to_bytes xs = Inr as \<and> hex_value h \<noteq> None \<longrightarrow>
      hex_to_bytes (xs @ h # CHR 0x09 # ys) = Inl ValueError"
    using hex_to_bytes_tab_in_byte by blast
  have 4: "hex_to_bytes xs = Inr as \<and> hex_to_bytes ys = Inr bs \<longrightarrow>
      hex_to_bytes (xs @ CHR 0x09 # ys) = Inr (as @ bs)"
    using hex_to_bytes_tab_between_bytes by blast
  have 5: "hex_to_bytes xs = Inr as \<and> hex_to_bytes ys = Inr bs \<longrightarrow>
      hex_to_bytes (xs @ ''0x'' @ ys) = Inr (as @ bs)"
    using hex_to_bytes_0x_between_bytes by blast
  from 1 2 3 4 5 cleaned_no_space cleaned_no_newline cleaned_append_0x show ?thesis
    by blast
qed

theorem hex_to_bytes_deletions_witness:
  "CHR 0x09 \<in> set (''1 2'' @ [CHR 0x09, CHR 0x0A] @ ''0x34'') \<and>
   CHR 0x09 \<in> set (cleaned (''1 2'' @ [CHR 0x09, CHR 0x0A] @ ''0x34'')) \<and>
   CHR '' '' \<notin> set (cleaned (''1 2'' @ [CHR 0x09, CHR 0x0A] @ ''0x34'')) \<and>
   CHR 0x0A \<notin> set (cleaned (''1 2'' @ [CHR 0x09, CHR 0x0A] @ ''0x34'')) \<and>
   hex_to_bytes ''AB'' = Inr [0xAB] \<and> hex_to_bytes ''CD'' = Inr [0xCD] \<and>
   hex_value CHR ''C'' \<noteq> None \<and>
   hex_to_bytes (''AB'' @ ''0x'' @ ''CD'') = Inr ([0xAB] @ [0xCD]) \<and>
   hex_to_bytes (''AB'' @ CHR ''C'' # CHR 0x09 # ''D'') = Inl ValueError \<and>
   hex_to_bytes (''AB'' @ CHR 0x09 # ''CD'') = Inr ([0xAB] @ [0xCD])"
proof -
  have t: "CHR 0x09 \<in> set (''1 2'' @ [CHR 0x09, CHR 0x0A] @ ''0x34'')"
    by simp
  have a: "hex_to_bytes ''AB'' = Inr [0xAB]" "hex_to_bytes ''CD'' = Inr [0xCD]"
    by (simp_all add: hex_to_bytes_def cleaned_def remove_char_def is_space_def hex_value_def
          hex_digit_chars_def)
  have c: "hex_value CHR ''C'' \<noteq> None"
    by (simp add: hex_value_def hex_digit_chars_def)
  from hex_to_bytes_deletions [of "''1 2'' @ [CHR 0x09, CHR 0x0A] @ ''0x34''" "''AB''" "''CD''"
      "[0xAB]" "[0xCD]" "CHR ''C''"]
    hex_to_bytes_deletions [of s "''AB''" "''D''" "[0xAB]" bs "CHR ''C''" for s bs]
    t a c
  show ?thesis
    by blast
qed

text \<open>
  C10, as stated, fails in its last part: the tab of \<open>12<tab>34\<close> is not removed, and the
  decoding succeeds all the same.
\<close>

theorem hex_to_bytes_tab_between_pairs_counterexample:
  "CHR 0x09 \<in> set (''12'' @ [CHR 0x09] @ ''34'') \<and>
   CHR 0x09 \<in> set (cleaned (''12'' @ [CHR 0x09] @ ''34'')) \<and>
   hex_to_bytes (''12'' @ [CHR 0x09] @ ''34'') = Inr [0x12, 0x34]"
  by (simp add: hex_to_bytes_def cleaned_def remove_char_def is_space_def hex_value_def
        hex_digit_chars_def)

section \<open>Key expansion\<close>

lemma collect_map: "(\<And>i. i \<in> set is \<Longrightarrow> f i = Inr (g i)) \<Longrightarrow> collect f is = Inr (map g is)"
  by (induction "is") simp_all

lemma py_range_rec: "a < b \<Longrightarrow> py_range a b = a # py_range (a + 1) b"
  by (simp add: py_range_def upto_rec1)

lemma py_range_empty: "b \<le> a \<Longrightarrow> py_range a b = []"
  by (simp add: py_range_def)

lemma set_py_range: "set (py_range a b) = {i. a \<le> i \<and> i < b}"
  by (auto simp: py_range_def)

lemma length_py_range: "length (py_range a b) = nat (b - a)"
  by (simp add: py_range_def)

lemma nth_py_range: "k < nat (b - a) \<Longrightarrow> py_range a b ! k = a + int k"
  by (simp add: py_range_def)

lemma length_sbox: "length sbox = 256"
  by (simp add: sbox_def)

lemma sbox_bytes: "list_all is_byte sbox"
  by (simp add: sbox_def is_byte_def)

lemma length_rcon: "length rcon = 16"
  by (simp add: rcon_def)

lemma rcon_bytes: "list_all is_byte rcon"
  by (simp add: rcon_def is_byte_def)

lemma py_get_sbox: "is_byte b \<Longrightarrow> py_get sbox b = Inr (sbox ! nat b)"
  by (simp add: py_get_nat length_sbox is_byte_def)

lemma is_byte_sbox: "is_byte b \<Longrightarrow> is_byte (sbox ! nat b)"
proof -
  assume "is_byte b"
  then have "nat b < length sbox" by (auto simp: length_sbox is_byte_def)
  with sbox_bytes show ?thesis by (simp only: list_all_length)
qed

lemma is_byte_rcon: "0 \<le> q \<Longrightarrow> q < 16 \<Longrightarrow> is_byte (rcon ! nat q)"
proof -
  assume "0 \<le> q" "q < 16"
  then have "nat q < length rcon" by (simp add: length_rcon)
  with rcon_bytes show ?thesis by (simp only: list_all_length)
qed

lemma is_wordE:
  assumes "is_word w"
  obtains a b c d where "w = [a, b, c, d]" "is_byte a" "is_byte b" "is_byte c" "is_byte d"
proof -
  from assms have "length w = 4" by (simp add: is_word_def)
  then obtain a b c d where w: "w = [a, b, c, d]" by (rule length4E)
  from assms show thesis by (intro that [OF w]) (simp_all add: w is_word_def)
qed

lemma rcon_index:
  fixes Nk i :: int
  assumes "3 \<le> Nk" "Nk \<le> i" "i < 4 * (Nk + 7)"
  shows "0 \<le> i div Nk - 1" "i div Nk - 1 < 16"
proof -
  from assms have "0 < i div Nk"
    by (simp add: pos_imp_zdiv_pos_iff)
  then show "0 \<le> i div Nk - 1" by simp
  have "i div Nk < 14"
  proof (rule ccontr)
    assume "\<not> i div Nk < 14"
    then have "14 \<le> i div Nk" by simp
    with assms have "14 * Nk \<le> i div Nk * Nk" by (intro mult_right_mono) simp_all
    moreover have "i = i div Nk * Nk + i mod Nk" by simp
    moreover from assms have "0 \<le> i mod Nk" by simp
    ultimately have "14 * Nk \<le> i" by linarith
    with assms show False by simp
  qed
  then show "i div Nk - 1 < 16" by simp
qed

lemma is_word_xor_word: "is_word a \<Longrightarrow> is_word b \<Longrightarrow> is_word (xor_word a b)"
  by (elim is_wordE) (simp add: xor_word_def is_word_def is_byte_xor)

lemma is_word_schedule_temp:
  fixes Nk i :: int
  assumes "is_word prev" "3 \<le> Nk" "Nk \<le> i" "i < 4 * (Nk + 7)"
  shows "is_word (schedule_temp Nk i prev)"
proof -
  from assms(1) obtain a b c d where p: "prev = [a, b, c, d]"
    and bs: "is_byte a" "is_byte b" "is_byte c" "is_byte d"
    by (rule is_wordE)
  from rcon_index [OF assms(2-4)] have "is_byte (rcon ! nat (i div Nk - 1))"
    by (rule is_byte_rcon)
  with bs show ?thesis
    by (simp add: schedule_temp_def p rot_word_def sub_word_def is_word_def is_byte_sbox
          is_byte_xor Let_def)
qed

lemma key_expansion_step_ok:
  assumes nk: "3 \<le> nk self"
    and i: "nk self \<le> i" "i < 4 * (nk self + 7)"
    and len: "int (length w) = i"
    and words: "list_all is_word w"
  shows "key_expansion_step self i w = Inr (w @ [next_word (nk self) w i])"
proof -
  from nk i len have i1: "nat (i - 1) < length w" and ik: "nat (i - nk self) < length w"
    by simp_all
  from words i1 have "is_word (w ! nat (i - 1))" by (simp only: list_all_length)
  then obtain t0 t1 t2 t3 where t: "w ! nat (i - 1) = [t0, t1, t2, t3]"
    and tb: "is_byte t0" "is_byte t1" "is_byte t2" "is_byte t3"
    by (rule is_wordE)
  from words ik have "is_word (w ! nat (i - nk self))" by (simp only: list_all_length)
  then obtain a0 a1 a2 a3 where a: "w ! nat (i - nk self) = [a0, a1, a2, a3]"
    by (rule is_wordE)
  from nk i len have g1: "py_get w (i - 1) = Inr [t0, t1, t2, t3]"
    by (simp add: py_get_nat t)
  from nk i len have g2: "py_get w (i - nk self) = Inr [a0, a1, a2, a3]"
    by (simp add: py_get_nat a)
  from nk have m: "py_mod i (nk self) = Inr (i mod nk self)" "py_div i (nk self) = Inr (i div nk self)"
    by (simp_all add: py_mod_def py_div_def)
  from rcon_index [OF nk i] have r: "py_get rcon (i div nk self - 1) = Inr (rcon ! nat (i div nk self - 1))"
    by (simp add: py_get_nat length_rcon)
  show ?thesis
    by (simp add: key_expansion_step_def g1 g2 m r py_get4 py_set4 py_get_sbox tb
          next_word_def schedule_temp_def rot_word_def sub_word_def xor_word_def t a Let_def)
qed

lemma next_word_prefix:
  assumes "take n w' = w" "length w = n" "0 < Nk" "Nk \<le> i" "int n = i"
  shows "next_word Nk w' i = next_word Nk w i"
proof -
  from assms have k: "nat (i - Nk) < n" "nat (i - 1) < n" by simp_all
  have "w ! nat (i - Nk) = w' ! nat (i - Nk)" "w ! nat (i - 1) = w' ! nat (i - 1)"
    using nth_take [OF k(1), of w'] nth_take [OF k(2), of w'] assms(1) by simp_all
  then show ?thesis by (simp add: next_word_def)
qed

lemma key_expansion_loop:
  assumes nk: "3 \<le> nk self"
  shows "nk self \<le> i \<Longrightarrow> i \<le> 4 * (nk self + 7) \<Longrightarrow> int (length w) = i \<Longrightarrow>
    list_all is_word w \<Longrightarrow>
    \<exists>w'. for_each (py_range i (4 * (nk self + 7))) (key_expansion_step self) w = Inr w' \<and>
      int (length w') = 4 * (nk self + 7) \<and> list_all is_word w' \<and> take (length w) w' = w \<and>
      (\<forall>k. i \<le> k \<and> k < 4 * (nk self + 7) \<longrightarrow> w' ! nat k = next_word (nk self) w' k)"
proof (induction "nat (4 * (nk self + 7) - i)" arbitrary: i w)
  case 0
  then have "i = 4 * (nk self + 7)" by simp
  with 0 show ?case by (auto simp: py_range_empty)
next
  case (Suc n)
  let ?m = "4 * (nk self + 7)"
  from Suc.hyps(2) have lt: "i < ?m" by simp
  define nw where "nw = next_word (nk self) w i"
  have step: "key_expansion_step self i w = Inr (w @ [nw])"
    unfolding nw_def using nk Suc.prems(1) lt Suc.prems(3) Suc.prems(4)
    by (rule key_expansion_step_ok)
  have "is_word (w ! nat (i - nk self))" "is_word (w ! nat (i - 1))"
    using Suc.prems nk by (simp_all add: list_all_length)
  then have nww: "is_word nw"
    unfolding nw_def next_word_def using nk Suc.prems(1) lt
    by (intro is_word_xor_word is_word_schedule_temp)
  have "\<exists>w'. for_each (py_range (i + 1) ?m) (key_expansion_step self) (w @ [nw]) = Inr w' \<and>
      int (length w') = ?m \<and> list_all is_word w' \<and> take (length (w @ [nw])) w' = w @ [nw] \<and>
      (\<forall>k. i + 1 \<le> k \<and> k < ?m \<longrightarrow> w' ! nat k = next_word (nk self) w' k)"
    using Suc.hyps(2) Suc.prems lt nww by (intro Suc.hyps(1)) simp_all
  then obtain w' where w': "for_each (py_range (i + 1) ?m) (key_expansion_step self) (w @ [nw]) = Inr w'"
    "int (length w') = ?m" "list_all is_word w'" "take (Suc (length w)) w' = w @ [nw]"
    "\<forall>k. i + 1 \<le> k \<and> k < ?m \<longrightarrow> w' ! nat k = next_word (nk self) w' k"
    by auto
  have tk: "take (length w) w' = w"
  proof -
    have "take (length w) w' = take (length w) (take (Suc (length w)) w')" by simp
    also have "\<dots> = w" by (simp only: w'(4)) simp
    finally show ?thesis .
  qed
  have "w' ! length w = (take (Suc (length w)) w') ! length w" by simp
  also have "\<dots> = nw" by (simp only: w'(4)) simp
  finally have "w' ! nat i = nw" using Suc.prems(3) by auto
  moreover have "next_word (nk self) w' i = nw"
    unfolding nw_def using tk _ _ Suc.prems(1) Suc.prems(3)
    by (rule next_word_prefix) (use nk in simp_all)
  ultimately have at_i: "w' ! nat i = next_word (nk self) w' i" by simp
  have "\<forall>k. i \<le> k \<and> k < ?m \<longrightarrow> w' ! nat k = next_word (nk self) w' k"
  proof (intro allI impI)
    fix k assume k: "i \<le> k \<and> k < ?m"
    show "w' ! nat k = next_word (nk self) w' k"
    proof (cases "k = i")
      case True
      with at_i show ?thesis by simp
    next
      case False
      with k w'(5) show ?thesis by simp
    qed
  qed
  with w' tk lt step show ?case by (simp add: py_range_rec)
qed

lemma hex_to_bytes_bytes: "hex_to_bytes s = Inr bs \<Longrightarrow> list_all is_byte bs"
  unfolding hex_to_bytes_def by (rule fromhex_bytes)

lemma key_words_ok:
  assumes i: "0 \<le> i" "4 * i + 3 < int (length kb)"
  shows "collect (\<lambda>k. py_get kb (4 * i + k)) [0, 1, 2, 3] =
         Inr [kb ! nat (4 * i), kb ! nat (4 * i + 1), kb ! nat (4 * i + 2), kb ! nat (4 * i + 3)]"
  using i by (simp add: py_get_nat)

lemma key_expansion_ok:
  assumes nk: "3 \<le> nk self" and nr: "nr self = nk self + 6"
    and kb: "hex_to_bytes key = Inr kb" and len: "4 * nk self \<le> int (length kb)"
  shows "\<exists>w. key_expansion self key = Inr w \<and> int (length w) = 4 * (nk self + 7) \<and>
      list_all is_word w \<and>
      (\<forall>i. 0 \<le> i \<and> i < nk self \<longrightarrow>
         w ! nat i = [kb ! nat (4 * i), kb ! nat (4 * i + 1), kb ! nat (4 * i + 2), kb ! nat (4 * i + 3)]) \<and>
      (\<forall>i. nk self \<le> i \<and> i < 4 * (nk self + 7) \<longrightarrow> w ! nat i = next_word (nk self) w i)"
proof -
  define kw where "kw = (\<lambda>i. [kb ! nat (4 * i), kb ! nat (4 * i + 1), kb ! nat (4 * i + 2), kb ! nat (4 * i + 3)])"
  define w0 where "w0 = map kw (py_range 0 (nk self))"
  have first: "collect (\<lambda>i. collect (\<lambda>k. py_get kb (4 * i + k)) [0, 1, 2, 3]) (py_range 0 (nk self)) = Inr w0"
    unfolding w0_def
  proof (rule collect_map)
    fix i assume "i \<in> set (py_range 0 (nk self))"
    then have "0 \<le> i" "4 * i + 3 < int (length kb)" using len by (simp_all add: set_py_range)
    then show "collect (\<lambda>k. py_get kb (4 * i + k)) [0, 1, 2, 3] = Inr (kw i)"
      unfolding kw_def by (rule key_words_ok)
  qed
  have bytes: "list_all is_byte kb" using kb by (rule hex_to_bytes_bytes)
  have kww: "is_word (kw i)" if "0 \<le> i" "i < nk self" for i
  proof -
    from that len have "nat (4 * i) < length kb" "nat (4 * i + 1) < length kb"
      "nat (4 * i + 2) < length kb" "nat (4 * i + 3) < length kb" by simp_all
    with bytes have "is_byte (kb ! nat (4 * i))" "is_byte (kb ! nat (4 * i + 1))"
      "is_byte (kb ! nat (4 * i + 2))" "is_byte (kb ! nat (4 * i + 3))"
      by (simp_all only: list_all_length)
    then show ?thesis by (simp add: kw_def is_word_def)
  qed
  have w0_len: "int (length w0) = nk self" using nk by (simp add: w0_def length_py_range)
  have w0_words: "list_all is_word w0"
    by (auto simp: w0_def list_all_iff set_py_range intro: kww)
  from key_expansion_loop [OF nk _ _ w0_len w0_words] nk
  obtain w where w: "for_each (py_range (nk self) (4 * (nk self + 7))) (key_expansion_step self) w0 = Inr w"
    "int (length w) = 4 * (nk self + 7)" "list_all is_word w" "take (length w0) w = w0"
    "\<forall>k. nk self \<le> k \<and> k < 4 * (nk self + 7) \<longrightarrow> w ! nat k = next_word (nk self) w k"
    by auto
  have "w ! nat i = kw i" if "0 \<le> i" "i < nk self" for i
  proof -
    from that w0_len have l: "nat i < length w0" by simp
    then have "w ! nat i = take (length w0) w ! nat i" by simp
    also have "\<dots> = w0 ! nat i" by (simp only: w(4))
    also have "\<dots> = kw i" using that l by (simp add: w0_def nth_py_range length_py_range)
    finally show ?thesis .
  qed
  then have "\<forall>i. 0 \<le> i \<and> i < nk self \<longrightarrow>
         w ! nat i = [kb ! nat (4 * i), kb ! nat (4 * i + 1), kb ! nat (4 * i + 2), kb ! nat (4 * i + 3)]"
    by (simp add: kw_def)
  moreover have "key_expansion self key = Inr w"
  proof -
    have "key_expansion self key =
        for_each (py_range (nk self) (4 * (nr self + 1))) (key_expansion_step self) w0"
      by (simp only: key_expansion_def kb bind_Inr first)
    moreover have "4 * (nr self + 1) = 4 * (nk self + 7)" using nr by simp
    ultimately show ?thesis using w(1) by (simp only:)
  qed
  ultimately show ?thesis using w by blast
qed

text \<open>
  C2: for a key of \<open>4 * Nk\<close> bytes with \<open>Nk\<close> one of 4, 6, 8 and \<open>Nr = Nk + 6\<close>, the
  key expansion returns exactly \<open>4 * (Nr + 1)\<close> words of four bytes each; the first
  \<open>Nk\<close> words are the key bytes, four at a time in sequence; and every later word \<open>i\<close>
  is the XOR of word \<open>i - Nk\<close> with \<open>temp\<close>, the word \<open>i - 1\<close> transformed as
  \<open>schedule_temp\<close> says.
\<close>

theorem key_expansion_schedule:
  assumes "nk self \<in> {4, 6, 8}" and "nr self = nk self + 6"
    and "hex_to_bytes key = Inr kb" and "int (length kb) = 4 * nk self"
  shows "\<exists>w. key_expansion self key = Inr w \<and> int (length w) = 4 * (nr self + 1) \<and>
      list_all is_word w \<and>
      (\<forall>i. 0 \<le> i \<and> i < nk self \<longrightarrow>
         w ! nat i = [kb ! nat (4 * i), kb ! nat (4 * i + 1), kb ! nat (4 * i + 2), kb ! nat (4 * i + 3)]) \<and>
      (\<forall>i. nk self \<le> i \<and> i < 4 * (nr self + 1) \<longrightarrow>
         w ! nat i = xor_word (w ! nat (i - nk self)) (schedule_temp (nk self) i (w ! nat (i - 1))))"
proof -
  from assms(1) have nk: "3 \<le> nk self" by auto
  from assms(4) have len: "4 * nk self \<le> int (length kb)" by simp
  have m: "4 * (nr self + 1) = 4 * (nk self + 7)" using assms(2) by simp
  from key_expansion_ok [OF nk assms(2) assms(3) len] show ?thesis
    unfolding m next_word_def by blast
qed

theorem key_expansion_schedule_witness:
  "nk (AES_init 128) \<in> {4, 6, 8} \<and> nr (AES_init 128) = nk (AES_init 128) + 6 \<and>
   hex_to_bytes ''000102030405060708090a0b0c0d0e0f'' = Inr [0, 1, 2, 3, 4, 5, 6, 7, 8, 9, 10, 11, 12, 13, 14, 15] \<and>
   int (length [0, 1, 2, 3, 4, 5, 6, 7, 8, 9, 10, 11, 12, 13, 14, 15 :: int]) = 4 * nk (AES_init 128) \<and>
   (\<exists>w. key_expansion (AES_init 128) ''000102030405060708090a0b0c0d0e0f'' = Inr w \<and>
        int (length w) = 44 \<and>
        w ! 4 = xor_word (w ! 0) (schedule_temp 4 4 (w ! 3)))"
proof -
  have 1: "nk (AES_init 128) \<in> {4, 6, 8}" "nr (AES_init 128) = nk (AES_init 128) + 6"
    by (simp_all add: AES_init_def)
  have 2: "hex_to_bytes ''000102030405060708090a0b0c0d0e0f'' = Inr [0, 1, 2, 3, 4, 5, 6, 7, 8, 9, 10, 11, 12, 13, 14, 15]"
    by (simp add: hex_to_bytes_def cleaned_def remove_char_def is_space_def hex_value_def
          hex_digit_chars_def)
  have 3: "int (length [0, 1, 2, 3, 4, 5, 6, 7, 8, 9, 10, 11, 12, 13, 14, 15 :: int]) = 4 * nk (AES_init 128)"
    by (simp add: AES_init_def)
  from key_expansion_schedule [OF 1 2 3] obtain w where
    w: "key_expansion (AES_init 128) ''000102030405060708090a0b0c0d0e0f'' = Inr w"
    "int (length w) = 4 * (nr (AES_init 128) + 1)"
    "\<forall>i. nk (AES_init 128) \<le> i \<and> i < 4 * (nr (AES_init 128) + 1) \<longrightarrow>
         w ! nat i = xor_word (w ! nat (i - nk (AES_init 128))) (schedule_temp (nk (AES_init 128)) i (w ! nat (i - 1)))"
    by blast
  from w(3) [rule_format, of 4] have "w ! 4 = xor_word (w ! 0) (schedule_temp 4 4 (w ! 3))"
    by (simp add: AES_init_def)
  with w(1) w(2) 1 2 3 show ?thesis by (simp add: AES_init_def)
qed

section \<open>The round transformations on states\<close>

lemma sub_bytes_explicit:
  assumes "is_byte a0" "is_byte a1" "is_byte a2" "is_byte a3"
    "is_byte b0" "is_byte b1" "is_byte b2" "is_byte b3"
    "is_byte c0" "is_byte c1" "is_byte c2" "is_byte c3"
    "is_byte d0" "is_byte d1" "is_byte d2" "is_byte d3"
  shows "sub_bytes [[a0, a1, a2, a3], [b0, b1, b2, b3], [c0, c1, c2, c3], [d0, d1, d2, d3]] =
    Inr [[sbox ! nat a0, sbox ! nat a1, sbox ! nat a2, sbox ! nat a3],
         [sbox ! nat b0, sbox ! nat b1, sbox ! nat b2, sbox ! nat b3],
         [sbox ! nat c0, sbox ! nat c1, sbox ! nat c2, sbox ! nat c3],
         [sbox ! nat d0, sbox ! nat d1, sbox ! nat d2, sbox ! nat d3]]"
  using assms by (simp add: sub_bytes_def py_get4 py_set4 py_get_sbox)

lemma sub_bytes_state:
  assumes "is_state s"
  shows "\<exists>t. sub_bytes s = Inr t \<and> is_state t"
proof -
  from assms have "is_matrix s" by (rule is_state_matrix)
  then obtain a0 a1 a2 a3 b0 b1 b2 b3 c0 c1 c2 c3 d0 d1 d2 d3 where
    s: "s = [[a0, a1, a2, a3], [b0, b1, b2, b3], [c0, c1, c2, c3], [d0, d1, d2, d3]]"
    by (rule is_matrixE)
  from assms have b: "is_byte a0" "is_byte a1" "is_byte a2" "is_byte a3"
    "is_byte b0" "is_byte b1" "is_byte b2" "is_byte b3"
    "is_byte c0" "is_byte c1" "is_byte c2" "is_byte c3"
    "is_byte d0" "is_byte d1" "is_byte d2" "is_byte d3"
    by (simp_all add: s is_state_def is_word_def)
  show ?thesis
    unfolding s sub_bytes_explicit [OF b]
    using b by (simp add: is_state_def is_word_def is_byte_sbox)
qed

lemma shift_rows_explicit:
  "shift_rows [[a0, a1, a2, a3], [b0, b1, b2, b3], [c0, c1, c2, c3], [d0, d1, d2, d3]] =
    Inr [[a0, a1, a2, a3], [b1, b2, b3, b0], [c2, c3, c0, c1], [d3, d0, d1, d2]]"
  by (simp add: shift_rows_def shift_row_def py_get4 py_set4)

lemma shift_rows_state:
  assumes "is_state s"
  shows "\<exists>t. shift_rows s = Inr t \<and> is_state t"
proof -
  from assms have "is_matrix s" by (rule is_state_matrix)
  then obtain a0 a1 a2 a3 b0 b1 b2 b3 c0 c1 c2 c3 d0 d1 d2 d3 where
    s: "s = [[a0, a1, a2, a3], [b0, b1, b2, b3], [c0, c1, c2, c3], [d0, d1, d2, d3]]"
    by (rule is_matrixE)
  from assms have b: "is_byte a0" "is_byte a1" "is_byte a2" "is_byte a3"
    "is_byte b0" "is_byte b1" "is_byte b2" "is_byte b3"
    "is_byte c0" "is_byte c1" "is_byte c2" "is_byte c3"
    "is_byte d0" "is_byte d1" "is_byte d2" "is_byte d3"
    by (simp_all add: s is_state_def is_word_def)
  show ?thesis
    unfolding s shift_rows_explicit
    using b by (simp add: is_state_def is_word_def)
qed

lemma add_round_key_explicit:
  "add_round_key [[a0, a1, a2, a3], [b0, b1, b2, b3], [c0, c1, c2, c3], [d0, d1, d2, d3]]
                 [[k0, k1, k2, k3], [l0, l1, l2, l3], [m0, m1, m2, m3], [n0, n1, n2, n3]] =
    Inr [[a0 XOR k0, a1 XOR k1, a2 XOR k2, a3 XOR k3],
         [b0 XOR l0, b1 XOR l1, b2 XOR l2, b3 XOR l3],
         [c0 XOR m0, c1 XOR m1, c2 XOR m2, c3 XOR m3],
         [d0 XOR n0, d1 XOR n1, d2 XOR n2, d3 XOR n3]]"
  by (simp add: add_round_key_def py_get4 py_set4)

lemma add_round_key_state:
  assumes "is_state s" "is_state k"
  shows "\<exists>t. add_round_key s k = Inr t \<and> is_state t"
proof -
  from assms(1) have "is_matrix s" by (rule is_state_matrix)
  then obtain a0 a1 a2 a3 b0 b1 b2 b3 c0 c1 c2 c3 d0 d1 d2 d3 where
    s: "s = [[a0, a1, a2, a3], [b0, b1, b2, b3], [c0, c1, c2, c3], [d0, d1, d2, d3]]"
    by (rule is_matrixE)
  from assms(1) have b: "is_byte a0" "is_byte a1" "is_byte a2" "is_byte a3"
    "is_byte b0" "is_byte b1" "is_byte b2" "is_byte b3"
    "is_byte c0" "is_byte c1" "is_byte c2" "is_byte c3"
    "is_byte d0" "is_byte d1" "is_byte d2" "is_byte d3"
    by (simp_all add: s is_state_def is_word_def)
  from assms(2) have "is_matrix k" by (rule is_state_matrix)
  then obtain k0 k1 k2 k3 l0 l1 l2 l3 m0 m1 m2 m3 n0 n1 n2 n3 where
    k: "k = [[k0, k1, k2, k3], [l0, l1, l2, l3], [m0, m1, m2, m3], [n0, n1, n2, n3]]"
    by (rule is_matrixE)
  from assms(2) have kb: "is_byte k0" "is_byte k1" "is_byte k2" "is_byte k3"
    "is_byte l0" "is_byte l1" "is_byte l2" "is_byte l3"
    "is_byte m0" "is_byte m1" "is_byte m2" "is_byte m3"
    "is_byte n0" "is_byte n1" "is_byte n2" "is_byte n3"
    by (simp_all add: k is_state_def is_word_def)
  show ?thesis
    unfolding s k add_round_key_explicit
    using b kb by (simp add: is_state_def is_word_def is_byte_xor)
qed

lemma round_key_matrix_explicit:
  assumes "py_get round_keys r =
     Inr [[a0, a1, a2, a3], [b0, b1, b2, b3], [c0, c1, c2, c3], [d0, d1, d2, d3]]"
  shows "round_key_matrix round_keys r =
     Inr [[a0, b0, c0, d0], [a1, b1, c1, d1], [a2, b2, c2, d2], [a3, b3, c3, d3]]"
  by (simp add: round_key_matrix_def assms py_get4)

lemma round_key_matrix_state:
  assumes "py_get round_keys r = Inr rk" "is_state rk"
  shows "\<exists>m. round_key_matrix round_keys r = Inr m \<and> is_state m"
proof -
  from assms(2) have "is_matrix rk" by (rule is_state_matrix)
  then obtain a0 a1 a2 a3 b0 b1 b2 b3 c0 c1 c2 c3 d0 d1 d2 d3 where
    s: "rk = [[a0, a1, a2, a3], [b0, b1, b2, b3], [c0, c1, c2, c3], [d0, d1, d2, d3]]"
    by (rule is_matrixE)
  from assms(2) have b: "is_byte a0" "is_byte a1" "is_byte a2" "is_byte a3"
    "is_byte b0" "is_byte b1" "is_byte b2" "is_byte b3"
    "is_byte c0" "is_byte c1" "is_byte c2" "is_byte c3"
    "is_byte d0" "is_byte d1" "is_byte d2" "is_byte d3"
    by (simp_all add: s is_state_def is_word_def)
  from assms(1) have "round_key_matrix round_keys r =
     Inr [[a0, b0, c0, d0], [a1, b1, c1, d1], [a2, b2, c2, d2], [a3, b3, c3, d3]]"
    unfolding s by (rule round_key_matrix_explicit)
  with b show ?thesis by (simp add: is_state_def is_word_def)
qed

lemma matrix_to_bytes_state:
  assumes "is_state s"
  shows "\<exists>d. matrix_to_bytes s = Inr d \<and> length d = 16"
proof -
  from assms have "is_matrix s" by (rule is_state_matrix)
  then obtain a0 b0 c0 d0 a1 b1 c1 d1 a2 b2 c2 d2 a3 b3 c3 d3 where
    s: "s = [[a0, b0, c0, d0], [a1, b1, c1, d1], [a2, b2, c2, d2], [a3, b3, c3, d3]]"
    by (rule is_matrixE)
  from assms show ?thesis unfolding s by (simp add: matrix_to_bytes_explicit)
qed

lemma py_get_16:
  assumes "16 \<le> length data"
  shows "py_get data 0 = Inr (data ! 0)" "py_get data 1 = Inr (data ! 1)"
    "py_get data 2 = Inr (data ! 2)" "py_get data 3 = Inr (data ! 3)"
    "py_get data 4 = Inr (data ! 4)" "py_get data 5 = Inr (data ! 5)"
    "py_get data 6 = Inr (data ! 6)" "py_get data 7 = Inr (data ! 7)"
    "py_get data 8 = Inr (data ! 8)" "py_get data 9 = Inr (data ! 9)"
    "py_get data 10 = Inr (data ! 10)" "py_get data 11 = Inr (data ! 11)"
    "py_get data 12 = Inr (data ! 12)" "py_get data 13 = Inr (data ! 13)"
    "py_get data 14 = Inr (data ! 14)" "py_get data 15 = Inr (data ! 15)"
proof -
  from assms have l: "16 \<le> int (length data)" by simp
  have g: "py_get data k = Inr (data ! nat k)" if "0 \<le> k" "k < 16" for k
    using that l by (intro py_get_nat) simp_all
  show "py_get data 0 = Inr (data ! 0)" "py_get data 1 = Inr (data ! 1)"
    "py_get data 2 = Inr (data ! 2)" "py_get data 3 = Inr (data ! 3)"
    "py_get data 4 = Inr (data ! 4)" "py_get data 5 = Inr (data ! 5)"
    "py_get data 6 = Inr (data ! 6)" "py_get data 7 = Inr (data ! 7)"
    "py_get data 8 = Inr (data ! 8)" "py_get data 9 = Inr (data ! 9)"
    "py_get data 10 = Inr (data ! 10)" "py_get data 11 = Inr (data ! 11)"
    "py_get data 12 = Inr (data ! 12)" "py_get data 13 = Inr (data ! 13)"
    "py_get data 14 = Inr (data ! 14)" "py_get data 15 = Inr (data ! 15)"
    using g [of 0] g [of 1] g [of 2] g [of 3] g [of 4] g [of 5] g [of 6] g [of 7]
      g [of 8] g [of 9] g [of 10] g [of 11] g [of 12] g [of 13] g [of 14] g [of 15]
    by simp_all
qed

lemma bytes_to_matrix_long:
  assumes "16 \<le> length data"
  shows "bytes_to_matrix data =
    Inr [[data ! 0, data ! 4, data ! 8, data ! 12], [data ! 1, data ! 5, data ! 9, data ! 13],
         [data ! 2, data ! 6, data ! 10, data ! 14], [data ! 3, data ! 7, data ! 11, data ! 15]]"
  by (simp add: bytes_to_matrix_def py_get_16 [OF assms])

lemma bytes_to_matrix_state:
  assumes "16 \<le> length data" "list_all is_byte data"
  shows "\<exists>st. bytes_to_matrix data = Inr st \<and> is_state st"
proof -
  have b: "is_byte (data ! n)" if "n < 16" for n
    using that assms by (simp add: list_all_length)
  show ?thesis
    unfolding bytes_to_matrix_long [OF assms(1)] by (simp add: is_state_def is_word_def b)
qed

section \<open>Encryption: the trace, the key size and the lengths\<close>

lemma labels_append [simp]: "labels (xs @ ys) = labels xs @ labels ys"
  by (simp add: labels_def)

lemma labels_Nil [simp]: "labels [] = []"
  by (simp add: labels_def)

lemma labels_entry [simp]: "labels (entry r opn st # es) = (r, opn) # labels es"
  by (simp add: labels_def entry_def)

lemma initial_round_ok:
  assumes "is_state st" "py_get round_keys 0 = Inr rk" "is_state rk"
  shows "\<exists>st' rs. initial_round round_keys st = Inr (st', rs) \<and> is_state st' \<and>
           labels rs = [(0, ''Initial AddRoundKey'')]"
proof -
  from round_key_matrix_state [OF assms(2,3)] obtain m where
    m: "round_key_matrix round_keys 0 = Inr m" "is_state m" by blast
  from add_round_key_state [OF assms(1) m(2)] obtain t where
    t: "add_round_key st m = Inr t" "is_state t" by blast
  show ?thesis by (simp add: initial_round_def m t)
qed

lemma main_round_ok:
  assumes "is_state st" "py_get round_keys r = Inr rk" "is_state rk"
  shows "\<exists>st' rs'. main_round round_keys r (st, rs) = Inr (st', rs') \<and> is_state st' \<and>
           labels rs' = labels rs @ main_labels r"
proof -
  from sub_bytes_state [OF assms(1)] obtain s1 where
    s1: "sub_bytes st = Inr s1" "is_state s1" by blast
  from shift_rows_state [OF s1(2)] obtain s2 where
    s2: "shift_rows s1 = Inr s2" "is_state s2" by blast
  from mix_columns_state [OF s2(2)] obtain s3 where
    s3: "mix_columns s2 = Inr s3" "is_state s3" by blast
  from round_key_matrix_state [OF assms(2,3)] obtain m where
    m: "round_key_matrix round_keys r = Inr m" "is_state m" by blast
  from add_round_key_state [OF s3(2) m(2)] obtain t where
    t: "add_round_key s3 m = Inr t" "is_state t" by blast
  show ?thesis by (simp add: main_round_def s1 s2 s3 m t main_labels_def Let_def)
qed

lemma final_round_ok:
  assumes "is_state st" "py_get round_keys r = Inr rk" "is_state rk"
  shows "\<exists>st' rs'. final_round round_keys r (st, rs) = Inr (st', rs') \<and> is_state st' \<and>
           labels rs' = labels rs @ final_labels r"
proof -
  from sub_bytes_state [OF assms(1)] obtain s1 where
    s1: "sub_bytes st = Inr s1" "is_state s1" by blast
  from shift_rows_state [OF s1(2)] obtain s2 where
    s2: "shift_rows s1 = Inr s2" "is_state s2" by blast
  from round_key_matrix_state [OF assms(2,3)] obtain m where
    m: "round_key_matrix round_keys r = Inr m" "is_state m" by blast
  from add_round_key_state [OF s2(2) m(2)] obtain t where
    t: "add_round_key s2 m = Inr t" "is_state t" by blast
  show ?thesis by (simp add: final_round_def s1 s2 m t final_labels_def Let_def)
qed

lemma main_rounds_ok:
  assumes keys: "\<And>r. r \<in> set idx \<Longrightarrow> \<exists>rk. py_get round_keys r = Inr rk \<and> is_state rk"
  shows "is_state st \<Longrightarrow>
    \<exists>st' rs'. for_each idx (main_round round_keys) (st, rs) = Inr (st', rs') \<and> is_state st' \<and>
       labels rs' = labels rs @ concat (map main_labels idx)"
  using keys
proof (induction idx arbitrary: st rs)
  case Nil
  then show ?case by simp
next
  case (Cons r idx)
  from Cons.prems(2) [of r] obtain rk where rk: "py_get round_keys r = Inr rk" "is_state rk"
    by auto
  from main_round_ok [OF Cons.prems(1) rk, of rs] obtain s1 r1 where
    1: "main_round round_keys r (st, rs) = Inr (s1, r1)" "is_state s1"
       "labels r1 = labels rs @ main_labels r" by blast
  have "\<exists>st' rs'. for_each idx (main_round round_keys) (s1, r1) = Inr (st', rs') \<and> is_state st' \<and>
       labels rs' = labels r1 @ concat (map main_labels idx)"
    using 1(2) Cons.prems(2) by (intro Cons.IH) simp_all
  with 1 show ?case by auto
qed

lemma length_bytes_to_hex: "length (bytes_to_hex data) = 2 * length data"
  by (induction data) (simp_all add: bytes_to_hex_def)

lemma round_keys_ok:
  assumes "4 * n \<le> int (length w)"
  shows "collect (\<lambda>i. collect (\<lambda>j. py_get w (4 * i + j)) (py_range 0 4)) (py_range 0 n) =
         Inr (map (round_key_words w) (py_range 0 n))"
proof (rule collect_map)
  fix i assume "i \<in> set (py_range 0 n)"
  then have "0 \<le> i" "4 * i + 3 < int (length w)" using assms by (simp_all add: set_py_range)
  then show "collect (\<lambda>j. py_get w (4 * i + j)) (py_range 0 4) = Inr (round_key_words w i)"
    unfolding round_key_words_def py_range_0_4 by (rule key_words_ok)
qed

lemma round_key_words_state:
  assumes "list_all is_word w" "0 \<le> i" "4 * i + 3 < int (length w)"
  shows "is_state (round_key_words w i)"
proof -
  from assms(2,3) have "nat (4 * i) < length w" "nat (4 * i + 1) < length w"
    "nat (4 * i + 2) < length w" "nat (4 * i + 3) < length w" by simp_all
  with assms(1) have "is_word (w ! nat (4 * i))" "is_word (w ! nat (4 * i + 1))"
    "is_word (w ! nat (4 * i + 2))" "is_word (w ! nat (4 * i + 3))"
    by (simp_all only: list_all_length)
  then show ?thesis by (simp add: round_key_words_def is_state_def)
qed

lemma py_get_round_keys:
  assumes "0 \<le> r" "r < n"
  shows "py_get (map (round_key_words w) (py_range 0 n)) r = Inr (round_key_words w r)"
  using assms by (simp add: py_get_nat length_py_range nth_py_range)

lemma key_entries_ok:
  "collect (\<lambda>i. bind (py_get (map (round_key_words w) (py_range 0 n)) i)
                   (\<lambda>rk. Inr \<lparr>key_round = i, key_hex = matrix_to_hex rk\<rparr>)) (py_range 0 n) =
   Inr (map (\<lambda>i. \<lparr>key_round = i, key_hex = matrix_to_hex (round_key_words w i)\<rparr>) (py_range 0 n))"
proof (rule collect_map)
  fix i assume "i \<in> set (py_range 0 n)"
  then have "0 \<le> i" "i < n" by (simp_all add: set_py_range)
  then show "bind (py_get (map (round_key_words w) (py_range 0 n)) i)
                   (\<lambda>rk. Inr \<lparr>key_round = i, key_hex = matrix_to_hex rk\<rparr>) =
     Inr \<lparr>key_round = i, key_hex = matrix_to_hex (round_key_words w i)\<rparr>"
    by (simp add: py_get_round_keys)
qed

lemma encrypt_ok:
  assumes nk: "3 \<le> nk self" and nr: "nr self = nk self + 6"
    and pt: "hex_to_bytes plaintext = Inr pt" and ptl: "16 \<le> length pt"
    and kb: "hex_to_bytes key = Inr kb" and kbl: "4 * nk self \<le> int (length kb)"
  shows "\<exists>r. encrypt self plaintext key = Inr r \<and>
    labels (rounds r) = expected_labels (nr self) \<and>
    map key_round (expanded_key r) = py_range 0 (nr self + 1) \<and>
    initial_state r = matrix_to_hex (first_state pt) \<and>
    length (final_ciphertext r) = 32"
proof -
  let ?n = "nr self + 1"
  have ptb: "list_all is_byte pt" using pt by (rule hex_to_bytes_bytes)
  have st0: "bytes_to_matrix pt = Inr (first_state pt)"
    unfolding first_state_def using ptl by (rule bytes_to_matrix_long)
  from bytes_to_matrix_state [OF ptl ptb] st0 have st0s: "is_state (first_state pt)" by simp
  from key_expansion_ok [OF nk nr kb kbl] obtain w where
    w: "key_expansion self key = Inr w" "int (length w) = 4 * (nk self + 7)" "list_all is_word w"
    by blast
  let ?rks = "map (round_key_words w) (py_range 0 ?n)"
  from w(2) nr have wl: "4 * ?n \<le> int (length w)" by simp
  have rks: "collect (\<lambda>i. collect (\<lambda>j. py_get w (4 * i + j)) (py_range 0 4)) (py_range 0 ?n) = Inr ?rks"
    using wl by (rule round_keys_ok)
  have rk: "py_get ?rks r = Inr (round_key_words w r)" "is_state (round_key_words w r)"
    if "0 \<le> r" "r < ?n" for r
  proof -
    from that show "py_get ?rks r = Inr (round_key_words w r)" by (rule py_get_round_keys)
    from that wl have "4 * r + 3 < int (length w)" by simp
    with w(3) that(1) show "is_state (round_key_words w r)" by (rule round_key_words_state)
  qed
  from nk nr have n0: "(0::int) < ?n" "nr self < ?n" "0 \<le> nr self" by simp_all
  from n0 have rk0: "py_get ?rks 0 = Inr (round_key_words w 0)" "is_state (round_key_words w 0)"
    by (simp_all add: rk)
  from n0 have rkn: "py_get ?rks (nr self) = Inr (round_key_words w (nr self))"
    "is_state (round_key_words w (nr self))"
    by (simp_all add: rk)
  from initial_round_ok [OF st0s rk0] obtain s1 r1 where
    1: "initial_round ?rks (first_state pt) = Inr (s1, r1)" "is_state s1"
       "labels r1 = [(0, ''Initial AddRoundKey'')]"
    by blast
  have "\<exists>st' rs'. for_each (py_range 1 (nr self)) (main_round ?rks) (s1, r1) = Inr (st', rs') \<and>
      is_state st' \<and> labels rs' = labels r1 @ concat (map main_labels (py_range 1 (nr self)))"
  proof (rule main_rounds_ok)
    fix r assume "r \<in> set (py_range 1 (nr self))"
    then have "0 \<le> r" "r < ?n" by (simp_all add: set_py_range)
    then show "\<exists>rk. py_get ?rks r = Inr rk \<and> is_state rk" using rk by blast
  qed (rule 1(2))
  then obtain s2 r2 where
    2: "for_each (py_range 1 (nr self)) (main_round ?rks) (s1, r1) = Inr (s2, r2)" "is_state s2"
       "labels r2 = labels r1 @ concat (map main_labels (py_range 1 (nr self)))"
    by blast
  from final_round_ok [OF 2(2) rkn, of r2] obtain s3 r3 where
    3: "final_round ?rks (nr self) (s2, r2) = Inr (s3, r3)" "is_state s3"
       "labels r3 = labels r2 @ final_labels (nr self)"
    by blast
  from matrix_to_bytes_state [OF 3(2)] obtain c where
    c: "matrix_to_bytes s3 = Inr c" "length c = 16" by blast
  have "encrypt self plaintext key =
      Inr \<lparr>initial_state = matrix_to_hex (first_state pt), rounds = r3,
           expanded_key = map (\<lambda>i. \<lparr>key_round = i, key_hex = matrix_to_hex (round_key_words w i)\<rparr>)
                             (py_range 0 ?n),
           final_ciphertext = bytes_to_hex c\<rparr>"
    by (simp only: encrypt_def pt kb st0 w(1) rks key_entries_ok 1(1) 2(1) 3(1) c(1) bind_Inr
          Let_def fst_conv snd_conv)
  moreover have "labels r3 = expected_labels (nr self)"
    by (simp add: 3(3) 2(3) 1(3) expected_labels_def)
  ultimately show ?thesis
    by (simp add: length_bytes_to_hex c(2) comp_def)
qed

lemma py_get_error: "py_get xs i = Inl e \<Longrightarrow> e = IndexError"
  by (simp add: py_get_def split: option.splits)

lemma collect_error:
  assumes "\<And>i e. f i = Inl e \<Longrightarrow> e = IndexError"
  shows "collect f is = Inl e \<Longrightarrow> e = IndexError"
proof (induction "is" arbitrary: e)
  case Nil
  then show ?case by simp
next
  case (Cons i "is")
  show ?case
  proof (cases "f i")
    case (Inl e')
    with Cons.prems assms [of i e'] show ?thesis by simp
  next
    case (Inr x)
    show ?thesis
    proof (cases "collect f is")
      case (Inl e')
      with Cons.prems Inr Cons.IH [of e'] show ?thesis by simp
    next
      case (Inr xs)
      with Cons.prems \<open>f i = Inr x\<close> show ?thesis by simp
    qed
  qed
qed

lemma collect_fails:
  assumes "i \<in> set is" "f i = Inl e"
  shows "\<exists>e'. collect f is = Inl e'"
  using assms by (induction "is") (auto split: sum.splits)

lemma bytes_to_matrix_short:
  assumes "length data < 16"
  shows "bytes_to_matrix data = Inl IndexError"
proof -
  have inner: "e = IndexError"
    if "collect (\<lambda>j. py_get data (4 * j + i)) (py_range 0 4) = Inl e" for i e
    using py_get_error that by (rule collect_error)
  have "py_get data (4 * 3 + 3) = Inl IndexError"
    using assms by (intro py_get_short) simp_all
  moreover have "(3::int) \<in> set (py_range 0 4)" by simp
  ultimately have "\<exists>e. collect (\<lambda>j. py_get data (4 * j + 3)) (py_range 0 4) = Inl e"
    by (rule collect_fails [where f = "\<lambda>j. py_get data (4 * j + 3)", rotated])
  then obtain e where "collect (\<lambda>j. py_get data (4 * j + 3)) (py_range 0 4) = Inl e" ..
  with \<open>(3::int) \<in> set (py_range 0 4)\<close>
  have "\<exists>e'. collect (\<lambda>i. collect (\<lambda>j. py_get data (4 * j + i)) (py_range 0 4)) (py_range 0 4) = Inl e'"
    by (rule collect_fails [where f = "\<lambda>i. collect (\<lambda>j. py_get data (4 * j + i)) (py_range 0 4)"])
  then obtain e' where e': "bytes_to_matrix data = Inl e'" by (auto simp only: bytes_to_matrix_def)
  then have "e' = IndexError"
    unfolding bytes_to_matrix_def using inner by (rule collect_error [rotated])
  with e' show ?thesis by simp
qed

lemma key_expansion_short:
  assumes nk: "1 \<le> nk self" and kb: "hex_to_bytes key = Inr kb"
    and len: "int (length kb) < 4 * nk self"
  shows "key_expansion self key = Inl IndexError"
proof -
  let ?inner = "\<lambda>i. collect (\<lambda>k. py_get kb (4 * i + k)) [0, 1, 2, 3]"
  have inner: "e = IndexError" if "?inner i = Inl e" for i e
    using py_get_error that by (rule collect_error)
  have "py_get kb (4 * (nk self - 1) + 3) = Inl IndexError"
    using nk len by (intro py_get_short) simp_all
  moreover have "(3::int) \<in> set [0, 1, 2, 3]" by simp
  ultimately have "\<exists>e. ?inner (nk self - 1) = Inl e"
    by (rule collect_fails [where f = "\<lambda>k. py_get kb (4 * (nk self - 1) + k)", rotated])
  then obtain e where e: "?inner (nk self - 1) = Inl e" ..
  have "nk self - 1 \<in> set (py_range 0 (nk self))"
    using nk by (simp add: set_py_range)
  from this e have "\<exists>e'. collect ?inner (py_range 0 (nk self)) = Inl e'"
    by (rule collect_fails [where f = ?inner])
  then obtain e' where e': "collect ?inner (py_range 0 (nk self)) = Inl e'" ..
  then have "e' = IndexError"
    using inner by (rule collect_error [rotated])
  with e' show ?thesis by (simp only: key_expansion_def kb bind_Inr bind_Inl)
qed

lemma encrypt_short_plaintext:
  assumes "hex_to_bytes plaintext = Inr pt" "length pt < 16" "hex_to_bytes key = Inr kb"
  shows "encrypt self plaintext key = Inl IndexError"
  by (simp only: encrypt_def assms(1,3) bind_Inr bytes_to_matrix_short [OF assms(2)] bind_Inl)

lemma encrypt_short_key:
  assumes "hex_to_bytes plaintext = Inr pt" "16 \<le> length pt" "hex_to_bytes key = Inr kb"
    "1 \<le> nk self" "int (length kb) < 4 * nk self"
  shows "encrypt self plaintext key = Inl IndexError"
  by (simp only: encrypt_def assms(1,3) bind_Inr bytes_to_matrix_long [OF assms(2)]
        key_expansion_short [OF assms(4,3,5)] bind_Inl)

lemma encrypt_Inr_lengths:
  assumes "encrypt self plaintext key = Inr r" "1 \<le> nk self"
  shows "\<exists>pt kb. hex_to_bytes plaintext = Inr pt \<and> 16 \<le> length pt \<and>
           hex_to_bytes key = Inr kb \<and> 4 * nk self \<le> int (length kb)"
proof -
  from assms(1) obtain pt where pt: "hex_to_bytes plaintext = Inr pt"
    by (cases "hex_to_bytes plaintext") (simp_all add: encrypt_def)
  from assms(1) pt obtain kb where kb: "hex_to_bytes key = Inr kb"
    by (cases "hex_to_bytes key") (simp_all add: encrypt_def)
  have 1: "16 \<le> length pt"
  proof (rule ccontr)
    assume "\<not> 16 \<le> length pt"
    then have "length pt < 16" by simp
    from encrypt_short_plaintext [OF pt this kb] assms(1) show False by simp
  qed
  have 2: "4 * nk self \<le> int (length kb)"
  proof (rule ccontr)
    assume "\<not> 4 * nk self \<le> int (length kb)"
    then have "int (length kb) < 4 * nk self" by simp
    from encrypt_short_key [OF pt 1 kb assms(2) this] assms(1) show False by simp
  qed
  from pt kb 1 2 show ?thesis by blast
qed

lemma hex_to_bytes_length:
  assumes "hex_to_bytes s = Inr bs"
  shows "2 * length bs \<le> length (remove_0x (remove_char CHR '' '' s))"
proof -
  from assms have "2 * length bs \<le> length (cleaned s)"
    unfolding hex_to_bytes_def by (rule fromhex_length)
  also have "\<dots> \<le> length (remove_0x (remove_char CHR '' '' s))"
    by (simp add: cleaned_def remove_char_def)
  finally show ?thesis .
qed

lemma encrypt_route_Trace:
  assumes "encrypt_route message key ks = Trace r" "ks \<in> {128, 192, 256}"
  shows "\<exists>pt kb. hex_to_bytes message = Inr pt \<and> length pt = 16 \<and>
           hex_to_bytes key = Inr kb \<and> int (length kb) = ks div 8"
proof -
  from assms(1) have m: "length (remove_0x (remove_char CHR '' '' message)) = 32"
    and k: "int (length (remove_0x (remove_char CHR '' '' key))) = ks div 4"
    and e: "encrypt (AES_init ks) message key = Inr r"
    by (auto simp: encrypt_route_def Let_def split: if_splits sum.splits)
  from assms(2) have nk: "1 \<le> nk (AES_init ks)" "4 * nk (AES_init ks) = ks div 8"
    "ks div 4 = 2 * (ks div 8)"
    by (auto simp: AES_init_def)
  from encrypt_Inr_lengths [OF e nk(1)] obtain pt kb where
    p: "hex_to_bytes message = Inr pt" "16 \<le> length pt"
       "hex_to_bytes key = Inr kb" "4 * nk (AES_init ks) \<le> int (length kb)"
    by blast
  from hex_to_bytes_length [OF p(1)] m p(2) have "length pt = 16" by simp
  moreover from hex_to_bytes_length [OF p(3)] k nk p(4) have "int (length kb) = ks div 8"
    by simp
  ultimately show ?thesis using p by blast
qed

lemma hex_fips_plaintext:
  "hex_to_bytes ''00112233445566778899aabbccddeeff'' =
   Inr [0x00, 0x11, 0x22, 0x33, 0x44, 0x55, 0x66, 0x77, 0x88, 0x99, 0xaa, 0xbb, 0xcc, 0xdd, 0xee, 0xff]"
  by (simp add: hex_to_bytes_def cleaned_def remove_char_def is_space_def hex_value_def
        hex_digit_chars_def)

lemma hex_fips_key:
  "hex_to_bytes ''000102030405060708090a0b0c0d0e0f'' =
   Inr [0, 1, 2, 3, 4, 5, 6, 7, 8, 9, 10, 11, 12, 13, 14, 15]"
  by (simp add: hex_to_bytes_def cleaned_def remove_char_def is_space_def hex_value_def
        hex_digit_chars_def)


lemma hex_plaintext_17:
  "hex_to_bytes ''00112233445566778899aabbccddeeff01'' =
   Inr [0x00, 0x11, 0x22, 0x33, 0x44, 0x55, 0x66, 0x77, 0x88, 0x99, 0xaa, 0xbb, 0xcc, 0xdd, 0xee, 0xff, 0x01]"
  by (simp add: hex_to_bytes_def cleaned_def remove_char_def is_space_def hex_value_def
        hex_digit_chars_def)

lemma hex_plaintext_15:
  "hex_to_bytes ''000000000000000000000000000000'' = Inr [0, 0, 0, 0, 0, 0, 0, 0, 0, 0, 0, 0, 0, 0, 0]"
  by (simp add: hex_to_bytes_def cleaned_def remove_char_def is_space_def hex_value_def
        hex_digit_chars_def)

lemma hex_key_10:
  "hex_to_bytes ''00000000000000000000'' = Inr [0, 0, 0, 0, 0, 0, 0, 0, 0, 0]"
  by (simp add: hex_to_bytes_def cleaned_def remove_char_def is_space_def hex_value_def
        hex_digit_chars_def)

lemma length_main_labels: "length (concat (map main_labels xs)) = 4 * length xs"
  by (induction xs) (simp_all add: main_labels_def)

text \<open>
  C3: for every valid encryption (a key size of 128, 192 or 256 bits, a plaintext of 16
  bytes and a key of the matching length), the entries of the trace are, in the order
  they were appended: one entry for round 0 labelled "Initial AddRoundKey"; for every main
  round \<open>r\<close> from 1 to \<open>Nr - 1\<close> the four entries SubBytes, ShiftRows, MixColumns,
  AddRoundKey, each with the round number \<open>r\<close>; and for round \<open>Nr\<close> the three entries
  SubBytes, ShiftRows, "Final AddRoundKey", with no MixColumns. That makes \<open>4 * Nr\<close>
  entries.
\<close>

theorem encrypt_trace_order:
  assumes "ks \<in> {128, 192, 256}"
    and "hex_to_bytes plaintext = Inr pt" and "length pt = 16"
    and "hex_to_bytes key = Inr kb" and "int (length kb) = ks div 8"
  shows "\<exists>r. encrypt (AES_init ks) plaintext key = Inr r \<and>
    labels (rounds r) =
      (0, ''Initial AddRoundKey'') #
      concat (map main_labels (py_range 1 (ks div 32 + 6))) @ final_labels (ks div 32 + 6) \<and>
    int (length (rounds r)) = 4 * (ks div 32 + 6)"
proof -
  from assms(1) have nk: "3 \<le> nk (AES_init ks)" "nr (AES_init ks) = nk (AES_init ks) + 6"
    "nr (AES_init ks) = ks div 32 + 6" "4 * nk (AES_init ks) = ks div 8" "1 \<le> ks div 32 + 6"
    by (auto simp: AES_init_def)
  from assms(3) have ptl: "16 \<le> length pt" by simp
  from assms(5) nk(4) have kbl: "4 * nk (AES_init ks) \<le> int (length kb)" by simp
  from encrypt_ok [OF nk(1,2) assms(2) ptl assms(4) kbl] obtain r where
    r: "encrypt (AES_init ks) plaintext key = Inr r"
       "labels (rounds r) = expected_labels (nr (AES_init ks))"
    by blast
  have "length (rounds r) = length (labels (rounds r))" by (simp add: labels_def)
  also have "int \<dots> = 4 * (ks div 32 + 6)"
    using nk(5)
    by (simp add: r(2) nk(3) expected_labels_def length_main_labels length_py_range final_labels_def)
  finally have "int (length (rounds r)) = 4 * (ks div 32 + 6)" .
  with r nk(3) show ?thesis by (auto simp: expected_labels_def)
qed

theorem encrypt_trace_order_witness:
  "(128::int) \<in> {128, 192, 256} \<and>
   hex_to_bytes ''00112233445566778899aabbccddeeff'' =
     Inr [0x00, 0x11, 0x22, 0x33, 0x44, 0x55, 0x66, 0x77, 0x88, 0x99, 0xaa, 0xbb, 0xcc, 0xdd, 0xee, 0xff] \<and>
   hex_to_bytes ''000102030405060708090a0b0c0d0e0f'' =
     Inr [0, 1, 2, 3, 4, 5, 6, 7, 8, 9, 10, 11, 12, 13, 14, 15] \<and>
   (\<exists>r. encrypt (AES_init 128) ''00112233445566778899aabbccddeeff''
          ''000102030405060708090a0b0c0d0e0f'' = Inr r \<and>
        labels (rounds r) =
          (0, ''Initial AddRoundKey'') # concat (map main_labels (py_range 1 10)) @ final_labels 10 \<and>
        int (length (rounds r)) = 40)"
  using encrypt_trace_order [OF _ hex_fips_plaintext _ hex_fips_key, of 128]
    hex_fips_plaintext hex_fips_key
  by simp




lemma first_state_17:
  "matrix_to_hex (first_state [0x00, 0x11, 0x22, 0x33, 0x44, 0x55, 0x66, 0x77, 0x88, 0x99, 0xaa,
      0xbb, 0xcc, 0xdd, 0xee, 0xff, 0x01]) =
   [[''00'', ''44'', ''88'', ''CC''], [''11'', ''55'', ''99'', ''DD''],
    [''22'', ''66'', ''AA'', ''EE''], [''33'', ''77'', ''BB'', ''FF'']]"
  by code_simp

text \<open>
  C5, as stated, fails: a plaintext of 17 bytes is no error for \<open>encrypt\<close>. The 17th
  byte is dropped without a word: the trace is the full trace of ten rounds, and its
  initial state is made of the first 16 bytes.
\<close>

theorem encrypt_long_plaintext_counterexample:
  "hex_to_bytes ''00112233445566778899aabbccddeeff01'' =
     Inr [0x00, 0x11, 0x22, 0x33, 0x44, 0x55, 0x66, 0x77, 0x88, 0x99, 0xaa, 0xbb, 0xcc, 0xdd,
          0xee, 0xff, 0x01] \<and>
   map_sum id (labels \<circ> rounds)
     (encrypt (AES_init 128) ''00112233445566778899aabbccddeeff01''
        ''000102030405060708090a0b0c0d0e0f'') = Inr (expected_labels 10) \<and>
   map_sum id initial_state
     (encrypt (AES_init 128) ''00112233445566778899aabbccddeeff01''
        ''000102030405060708090a0b0c0d0e0f'') =
     Inr [[''00'', ''44'', ''88'', ''CC''], [''11'', ''55'', ''99'', ''DD''],
          [''22'', ''66'', ''AA'', ''EE''], [''33'', ''77'', ''BB'', ''FF'']]"
proof -
  have nk: "3 \<le> nk (AES_init 128)" "nr (AES_init 128) = nk (AES_init 128) + 6"
    "nr (AES_init 128) = 10" "nk (AES_init 128) = 4"
    by (simp_all add: AES_init_def)
  from encrypt_ok [OF nk(1,2) hex_plaintext_17 _ hex_fips_key] nk(4) obtain r where
    "encrypt (AES_init 128) ''00112233445566778899aabbccddeeff01''
        ''000102030405060708090a0b0c0d0e0f'' = Inr r"
    "labels (rounds r) = expected_labels (nr (AES_init 128))"
    "initial_state r = matrix_to_hex (first_state [0x00, 0x11, 0x22, 0x33, 0x44, 0x55, 0x66,
        0x77, 0x88, 0x99, 0xaa, 0xbb, 0xcc, 0xdd, 0xee, 0xff, 0x01])"
    by auto
  with nk(3) hex_plaintext_17 first_state_17 show ?thesis by simp
qed

text \<open>
  C5, as amended. When plaintext and key both decode, \<open>encrypt\<close> raises \<open>IndexError\<close>
  if the plaintext has fewer than 16 bytes, and also if the plaintext has at least 16
  bytes, \<open>Nk\<close> is at least 1 and the key has fewer than \<open>4 * Nk\<close> bytes; so a plaintext
  of 15 bytes with a key that decodes, and a key of 10 bytes with a plaintext of 16 bytes,
  both with the key size 128, raise \<open>IndexError\<close>. When the plaintext or the key does not
  decode, it raises \<open>ValueError\<close>, whatever the lengths. Bytes in excess are not an error
  for \<open>encrypt\<close>: with at least 16 bytes of plaintext and at least \<open>4 * Nk\<close> bytes of
  key (\<open>Nk\<close> at least 3, \<open>Nr = Nk + 6\<close>) it returns a trace, whose initial state is made
  of the first 16 bytes. It is the route that reports them: for a key size of 128, 192 or
  256, a call of the route whose plaintext does not decode to exactly 16 bytes, or whose
  key does not decode to exactly \<open>keySize div 8\<close> bytes, is never answered with a trace.
\<close>

theorem encrypt_length_errors:
  "(hex_to_bytes plaintext = Inr pt \<and> length pt < 16 \<and> hex_to_bytes key = Inr kb \<longrightarrow>
      encrypt self plaintext key = Inl IndexError) \<and>
   (hex_to_bytes plaintext = Inr pt \<and> 16 \<le> length pt \<and> hex_to_bytes key = Inr kb \<and>
    1 \<le> nk self \<and> int (length kb) < 4 * nk self \<longrightarrow>
      encrypt self plaintext key = Inl IndexError) \<and>
   (ks \<in> {128, 192, 256} \<and>
    \<not> (\<exists>p k. hex_to_bytes plaintext = Inr p \<and> length p = 16 \<and>
              hex_to_bytes key = Inr k \<and> int (length k) = ks div 8) \<longrightarrow>
      (\<forall>r. encrypt_route plaintext key ks \<noteq> Trace r)) \<and>
   (hex_to_bytes plaintext = Inr pt \<and> 16 \<le> length pt \<and> hex_to_bytes key = Inr kb \<and>
    3 \<le> nk self \<and> nr self = nk self + 6 \<and> 4 * nk self \<le> int (length kb) \<longrightarrow>
      (\<exists>r. encrypt self plaintext key = Inr r \<and>
           initial_state r = matrix_to_hex (first_state pt))) \<and>
   (hex_to_bytes plaintext = Inl e \<or> hex_to_bytes key = Inl e \<longrightarrow>
      encrypt self plaintext key = Inl ValueError)"
proof (intro conjI impI)
  assume d: "hex_to_bytes plaintext = Inl e \<or> hex_to_bytes key = Inl e"
  have v: "e' = ValueError" if "hex_to_bytes t = Inl e'" for t e'
    using that unfolding hex_to_bytes_def by (rule fromhex_error)
  show "encrypt self plaintext key = Inl ValueError"
  proof (cases "hex_to_bytes plaintext")
    case (Inl e')
    with v [OF Inl] show ?thesis by (simp add: encrypt_def)
  next
    case (Inr p)
    with d have k: "hex_to_bytes key = Inl e" by simp
    with v [OF k] Inr show ?thesis by (simp add: encrypt_def)
  qed
next
  assume "hex_to_bytes plaintext = Inr pt \<and> 16 \<le> length pt \<and> hex_to_bytes key = Inr kb \<and>
    3 \<le> nk self \<and> nr self = nk self + 6 \<and> 4 * nk self \<le> int (length kb)"
  then have h: "3 \<le> nk self" "nr self = nk self + 6" "hex_to_bytes plaintext = Inr pt"
    "16 \<le> length pt" "hex_to_bytes key = Inr kb" "4 * nk self \<le> int (length kb)"
    by blast+
  from encrypt_ok [OF h] show "\<exists>r. encrypt self plaintext key = Inr r \<and>
           initial_state r = matrix_to_hex (first_state pt)"
    by blast
next
  assume "hex_to_bytes plaintext = Inr pt \<and> length pt < 16 \<and> hex_to_bytes key = Inr kb"
  then show "encrypt self plaintext key = Inl IndexError"
    using encrypt_short_plaintext by blast
next
  assume "hex_to_bytes plaintext = Inr pt \<and> 16 \<le> length pt \<and> hex_to_bytes key = Inr kb \<and>
    1 \<le> nk self \<and> int (length kb) < 4 * nk self"
  then show "encrypt self plaintext key = Inl IndexError"
    using encrypt_short_key by blast
next
  assume a: "ks \<in> {128, 192, 256} \<and>
    \<not> (\<exists>p k. hex_to_bytes plaintext = Inr p \<and> length p = 16 \<and>
              hex_to_bytes key = Inr k \<and> int (length k) = ks div 8)"
  show "\<forall>r. encrypt_route plaintext key ks \<noteq> Trace r"
  proof (intro allI notI)
    fix r assume "encrypt_route plaintext key ks = Trace r"
    from encrypt_route_Trace [OF this] a show False by blast
  qed
qed

theorem encrypt_length_errors_witness:
  "hex_to_bytes ''000000000000000000000000000000'' =
     Inr [0, 0, 0, 0, 0, 0, 0, 0, 0, 0, 0, 0, 0, 0, 0] \<and>
   hex_to_bytes ''00000000000000000000'' = Inr [0, 0, 0, 0, 0, 0, 0, 0, 0, 0] \<and>
   nk (AES_init 128) = 4 \<and>
   encrypt (AES_init 128) ''000000000000000000000000000000''
     ''000102030405060708090a0b0c0d0e0f'' = Inl IndexError \<and>
   encrypt (AES_init 128) ''00112233445566778899aabbccddeeff'' ''00000000000000000000'' =
     Inl IndexError \<and>
   (\<forall>r. encrypt_route ''00112233445566778899aabbccddeeff01''
          ''000102030405060708090a0b0c0d0e0f'' 128 \<noteq> Trace r) \<and>
   hex_to_bytes ''00112233445566778899aabbccddeeff01'' =
     Inr [0x00, 0x11, 0x22, 0x33, 0x44, 0x55, 0x66, 0x77, 0x88, 0x99, 0xaa, 0xbb, 0xcc, 0xdd,
          0xee, 0xff, 0x01] \<and>
   (\<exists>r. encrypt (AES_init 128) ''00112233445566778899aabbccddeeff01''
          ''000102030405060708090a0b0c0d0e0f'' = Inr r) \<and>
   hex_to_bytes ''gg'' = Inl ValueError \<and>
   encrypt (AES_init 128) ''000000000000000000000000000000'' ''gg'' = Inl ValueError"
proof -
  have nk: "nk (AES_init 128) = 4"
    by (simp add: AES_init_def)
  have g: "hex_to_bytes ''gg'' = Inl ValueError"
    by (simp add: hex_to_bytes_def cleaned_def remove_char_def is_space_def hex_value_def
          hex_digit_chars_def)
  have 5: "encrypt (AES_init 128) ''000000000000000000000000000000'' ''gg'' = Inl ValueError"
    using encrypt_length_errors [of "''000000000000000000000000000000''" pt "''gg''" kb
        "AES_init 128" ks ValueError for pt kb ks] g
    by simp
  have 4: "\<exists>r. encrypt (AES_init 128) ''00112233445566778899aabbccddeeff01''
          ''000102030405060708090a0b0c0d0e0f'' = Inr r"
  proof -
    have "\<exists>r. encrypt (AES_init 128) ''00112233445566778899aabbccddeeff01''
          ''000102030405060708090a0b0c0d0e0f'' = Inr r \<and>
        initial_state r = matrix_to_hex (first_state [0x00, 0x11, 0x22, 0x33, 0x44, 0x55, 0x66,
          0x77, 0x88, 0x99, 0xaa, 0xbb, 0xcc, 0xdd, 0xee, 0xff, 0x01])"
      using encrypt_length_errors [of "''00112233445566778899aabbccddeeff01''"
        "[0x00, 0x11, 0x22, 0x33, 0x44, 0x55, 0x66, 0x77, 0x88, 0x99, 0xaa, 0xbb, 0xcc, 0xdd,
          0xee, 0xff, 0x01]" "''000102030405060708090a0b0c0d0e0f''"
        "[0, 1, 2, 3, 4, 5, 6, 7, 8, 9, 10, 11, 12, 13, 14, 15]" "AES_init 128" 128]
        hex_plaintext_17 hex_fips_key
      by (simp add: AES_init_def)
    then show ?thesis
      by blast
  qed
  have 1: "encrypt (AES_init 128) ''000000000000000000000000000000''
     ''000102030405060708090a0b0c0d0e0f'' = Inl IndexError"
    using encrypt_length_errors [of "''000000000000000000000000000000''"
        "[0, 0, 0, 0, 0, 0, 0, 0, 0, 0, 0, 0, 0, 0, 0]" "''000102030405060708090a0b0c0d0e0f''"
        "[0, 1, 2, 3, 4, 5, 6, 7, 8, 9, 10, 11, 12, 13, 14, 15]" "AES_init 128" 128]
      hex_plaintext_15 hex_fips_key
    by simp
  have 2: "encrypt (AES_init 128) ''00112233445566778899aabbccddeeff'' ''00000000000000000000'' =
     Inl IndexError"
    using encrypt_length_errors [of "''00112233445566778899aabbccddeeff''"
        "[0x00, 0x11, 0x22, 0x33, 0x44, 0x55, 0x66, 0x77, 0x88, 0x99, 0xaa, 0xbb, 0xcc, 0xdd, 0xee, 0xff]"
        "''00000000000000000000''" "[0, 0, 0, 0, 0, 0, 0, 0, 0, 0]" "AES_init 128" 128]
      hex_fips_plaintext hex_key_10 nk
    by simp
  have 3: "\<forall>r. encrypt_route ''00112233445566778899aabbccddeeff01''
          ''000102030405060708090a0b0c0d0e0f'' 128 \<noteq> Trace r"
    using encrypt_length_errors [of "''00112233445566778899aabbccddeeff01''" pt
        "''000102030405060708090a0b0c0d0e0f''" kb self 128 for pt kb self]
      hex_plaintext_17
    by simp
  from 1 2 3 4 5 g nk hex_plaintext_15 hex_key_10 hex_plaintext_17 show ?thesis
    by blast
qed

text \<open>
  C1: for the FIPS-197 test vector, the plaintext \<open>00112233445566778899aabbccddeeff\<close> and
  the key \<open>000102030405060708090a0b0c0d0e0f\<close> with the key size 128, \<open>encrypt\<close> returns
  a trace whose \<open>final_ciphertext\<close> is \<open>69C4E0D86A7B0430D8CDB78070B4C55A\<close>.
\<close>

theorem encrypt_fips_197:
  "map_sum id final_ciphertext
     (encrypt (AES_init 128) ''00112233445566778899aabbccddeeff''
        ''000102030405060708090a0b0c0d0e0f'') =
   Inr ''69C4E0D86A7B0430D8CDB78070B4C55A''"
  by code_simp


end
